theory Spec2Isabelle
  imports Main "HOL-Library.Char_ord" "HOL-Library.List_Lexorder" "HOL-Library.Sublist"
    "HOL-Library.AList"
begin

section \<open>Go strings, runes and formatting verbs used by the signer\<close>

text \<open>
  A Go \<^verbatim>\<open>string\<close> is a sequence of bytes, modelled as \<^typ>\<open>string\<close> (a list of
  8-bit characters). A \<^verbatim>\<open>rune\<close> is a code point, modelled as a natural number.
  \<^verbatim>\<open>for _, r := range input\<close> decodes UTF-8: it yields one rune per well-formed
  sequence and \<^verbatim>\<open>U+FFFD\<close>, advancing one byte, at every byte that does not start one.
\<close>

definition RuneError :: nat where
  "RuneError = 0xFFFD"

definition contByte :: "nat \<Rightarrow> bool" where
  "contByte b = (0x80 \<le> b \<and> b \<le> 0xBF)"

definition decode2 :: "nat \<Rightarrow> string \<Rightarrow> nat \<times> nat" where
  "decode2 b0 t =
     (case t of
        c1 # _ \<Rightarrow>
          (let b1 = (of_char c1 :: nat);
               r = (b0 mod 32) * 64 + b1 mod 64
           in if contByte b1 \<and> 0x7F < r then (r, 2) else (RuneError, 1))
      | _ \<Rightarrow> (RuneError, 1))"

definition decode3 :: "nat \<Rightarrow> string \<Rightarrow> nat \<times> nat" where
  "decode3 b0 t =
     (case t of
        c1 # c2 # _ \<Rightarrow>
          (let b1 = (of_char c1 :: nat); b2 = (of_char c2 :: nat);
               r = (b0 mod 16) * 4096 + (b1 mod 64) * 64 + b2 mod 64
           in if contByte b1 \<and> contByte b2 \<and> 0x7FF < r \<and> (r < 0xD800 \<or> 0xDFFF < r)
              then (r, 3) else (RuneError, 1))
      | _ \<Rightarrow> (RuneError, 1))"

definition decode4 :: "nat \<Rightarrow> string \<Rightarrow> nat \<times> nat" where
  "decode4 b0 t =
     (case t of
        c1 # c2 # c3 # _ \<Rightarrow>
          (let b1 = (of_char c1 :: nat); b2 = (of_char c2 :: nat); b3 = (of_char c3 :: nat);
               r = (b0 mod 8) * 262144 + (b1 mod 64) * 4096 + (b2 mod 64) * 64 + b3 mod 64
           in if contByte b1 \<and> contByte b2 \<and> contByte b3 \<and> 0xFFFF < r \<and> r \<le> 0x10FFFF
              then (r, 4) else (RuneError, 1))
      | _ \<Rightarrow> (RuneError, 1))"

text \<open>The rune at the front of a string and the number of bytes it takes.\<close>

definition decoderune :: "string \<Rightarrow> nat \<times> nat" where
  "decoderune s =
     (case s of
        [] \<Rightarrow> (RuneError, 1)
      | c # t \<Rightarrow>
          (let b0 = (of_char c :: nat) in
           if b0 < 0x80 then (b0, 1)
           else if 0xC0 \<le> b0 \<and> b0 < 0xE0 then decode2 b0 t
           else if 0xE0 \<le> b0 \<and> b0 < 0xF0 then decode3 b0 t
           else if 0xF0 \<le> b0 \<and> b0 < 0xF8 then decode4 b0 t
           else (RuneError, 1)))"

text \<open>
  What \<^verbatim>\<open>range s\<close> yields: every rune with the bytes it was read from.
\<close>

fun stringRunes :: "string \<Rightarrow> (nat \<times> string) list" where
  "stringRunes [] = []"
| "stringRunes (c # cs) =
     (case decoderune (c # cs) of
        (r, w) \<Rightarrow> (r, c # take (w - 1) cs) # stringRunes (drop (w - 1) cs))"

text \<open>\<^verbatim>\<open>string(r)\<close> and \<^verbatim>\<open>WriteRune(r)\<close>: the UTF-8 encoding of a rune.\<close>

definition runeString :: "nat \<Rightarrow> string" where
  "runeString r =
     (if r < 0x80 then [char_of r]
      else if r < 0x800 then [char_of (0xC0 + r div 64), char_of (0x80 + r mod 64)]
      else if 0x10FFFF < r \<or> (0xD800 \<le> r \<and> r \<le> 0xDFFF) then [CHR 0xEF, CHR 0xBF, CHR 0xBD]
      else if r < 0x10000 then
        [char_of (0xE0 + r div 4096), char_of (0x80 + (r div 64) mod 64), char_of (0x80 + r mod 64)]
      else
        [char_of (0xF0 + r div 262144), char_of (0x80 + (r div 4096) mod 64),
         char_of (0x80 + (r div 64) mod 64), char_of (0x80 + r mod 64)])"

definition hexDigitUpper :: "nat \<Rightarrow> char" where
  "hexDigitUpper d = ''0123456789ABCDEF'' ! d"

function hexUpper :: "nat \<Rightarrow> string" where
  "hexUpper n =
     (if n < 16 then [hexDigitUpper n] else hexUpper (n div 16) @ [hexDigitUpper (n mod 16)])"
  by pat_completeness auto
termination
  by (relation "measure id") auto

declare hexUpper.simps [simp del]

text \<open>The verb \<^verbatim>\<open>%02X\<close> on a non-negative integer: upper-case hexadecimal, at least two digits.\<close>

definition fmt02X :: "nat \<Rightarrow> string" where
  "fmt02X n = (let h = hexUpper n in replicate (2 - length h) (CHR ''0'') @ h)"

section \<open>The signer: \<^verbatim>\<open>uriEncode\<close>\<close>

text \<open>
  One iteration of the loop of \<^verbatim>\<open>uriEncode\<close>, for the rune \<open>r\<close>:
  \<^verbatim>\<open>c := string(r)\<close>, then the three branches.
\<close>

definition uriEncodeRune :: "bool \<Rightarrow> nat \<Rightarrow> string" where
  "uriEncodeRune encodeSlash r =
     (let c = runeString r in
      if (0x41 \<le> r \<and> r \<le> 0x5A) \<or> (0x61 \<le> r \<and> r \<le> 0x7A) \<or> (0x30 \<le> r \<and> r \<le> 0x39) \<or>
         c = ''_'' \<or> c = ''-'' \<or> c = ''~'' \<or> c = ''.''
      then runeString r
      else if c = ''/'' \<and> \<not> encodeSlash then ''/''
      else CHR ''%'' # fmt02X r)"

definition uriEncode :: "string \<Rightarrow> bool \<Rightarrow> string" where
  "uriEncode input encodeSlash = concat (map (\<lambda>(r, bs). uriEncodeRune encodeSlash r) (stringRunes input))"

text \<open>
  The encoder as the specification words it: byte by byte, each byte outside the
  unreserved set (and outside the literal slash) as \<^verbatim>\<open>%XX\<close> of that byte.
\<close>

definition unreservedByte :: "char \<Rightarrow> bool" where
  "unreservedByte c =
     (let b = (of_char c :: nat) in
      (0x41 \<le> b \<and> b \<le> 0x5A) \<or> (0x61 \<le> b \<and> b \<le> 0x7A) \<or> (0x30 \<le> b \<and> b \<le> 0x39) \<or>
      c = CHR ''-'' \<or> c = CHR ''_'' \<or> c = CHR ''.'' \<or> c = CHR ''~'')"

definition uriEncodeByte_spec :: "bool \<Rightarrow> char \<Rightarrow> string" where
  "uriEncodeByte_spec encodeSlash c =
     (if unreservedByte c then [c]
      else if c = CHR ''/'' \<and> \<not> encodeSlash then ''/''
      else [CHR ''%'', hexDigitUpper (of_char c div 16), hexDigitUpper (of_char c mod 16)])"

definition uriEncode_spec :: "string \<Rightarrow> bool \<Rightarrow> string" where
  "uriEncode_spec input encodeSlash = concat (map (uriEncodeByte_spec encodeSlash) input)"


section \<open>The rest of the standard library the service calls\<close>

text \<open>
  The cryptographic primitives, the Unicode case table and the floating-point
  \<^verbatim>\<open>Duration.Seconds\<close> belong to the Go standard library, not to this repository;
  the model takes them as parameters, so every theorem holds for whatever they compute:
  \<open>toLowerTable\<close> is \<^verbatim>\<open>unicode.ToLower\<close> on the runes above ASCII, \<open>sha256Sum m\<close> the
  SHA-256 digest of \<open>m\<close> as raw bytes, \<open>hmacSum key data\<close> the HMAC-SHA256 of \<open>data\<close>
  under \<open>key\<close> as raw bytes, and \<open>durationSeconds d\<close> the value of
  \<^verbatim>\<open>int(d.Seconds())\<close> for a duration of \<open>d\<close> nanoseconds.
\<close>

record stdlib =
  toLowerTable :: "nat \<Rightarrow> nat"
  sha256Sum :: "string \<Rightarrow> string"
  hmacSum :: "string \<Rightarrow> string \<Rightarrow> string"
  durationSeconds :: "int \<Rightarrow> int"

text \<open>\<^verbatim>\<open>unicode.ToLower\<close>: ASCII letters directly, everything above ASCII through the case table.\<close>

definition unicode_ToLower :: "stdlib \<Rightarrow> nat \<Rightarrow> nat" where
  "unicode_ToLower L r =
     (if r \<le> 0x7F then (if 0x41 \<le> r \<and> r \<le> 0x5A then r + 0x20 else r)
      else toLowerTable L r)"

text \<open>
  \<^verbatim>\<open>strings.ToLower\<close>: every rune of the string mapped through \<^verbatim>\<open>unicode.ToLower\<close> and
  written back as UTF-8 (a byte that starts no rune is read as \<^verbatim>\<open>U+FFFD\<close>).
\<close>

definition ToLower :: "stdlib \<Rightarrow> string \<Rightarrow> string" where
  "ToLower L s = concat (map (\<lambda>(r, bs). runeString (unicode_ToLower L r)) (stringRunes s))"

text \<open>\<^verbatim>\<open>strings.ReplaceAll(s, old, new)\<close> where \<open>old\<close> and \<open>new\<close> are one byte each.\<close>

definition ReplaceAllByte :: "string \<Rightarrow> char \<Rightarrow> char \<Rightarrow> string" where
  "ReplaceAllByte s old new = map (\<lambda>c. if c = old then new else c) s"

text \<open>\<^verbatim>\<open>unicode.IsSpace\<close>: the code points with the White_Space property.\<close>

definition IsSpace :: "nat \<Rightarrow> bool" where
  "IsSpace r =
     ((0x09 \<le> r \<and> r \<le> 0x0D) \<or> r = 0x20 \<or> r = 0x85 \<or> r = 0xA0 \<or> r = 0x1680 \<or>
      (0x2000 \<le> r \<and> r \<le> 0x200A) \<or> r = 0x2028 \<or> r = 0x2029 \<or> r = 0x202F \<or>
      r = 0x205F \<or> r = 0x3000)"

definition spaceRune :: "nat \<times> string \<Rightarrow> bool" where
  "spaceRune x = IsSpace (fst x)"

text \<open>\<^verbatim>\<open>strings.TrimSpace\<close>: the string without its leading and trailing white-space runes.\<close>

definition trimRunes :: "(nat \<times> string) list \<Rightarrow> (nat \<times> string) list" where
  "trimRunes rs = rev (dropWhile spaceRune (rev (dropWhile spaceRune rs)))"

definition TrimSpace :: "string \<Rightarrow> string" where
  "TrimSpace s = concat (map snd (trimRunes (stringRunes s)))"

text \<open>
  \<^verbatim>\<open>strings.Fields\<close>, as the loop of \<^verbatim>\<open>FieldsFunc\<close> runs it: \<open>cur\<close> is the field
  being read (\<open>None\<close> between fields), closed at the next white-space rune or at the end.
\<close>

fun fieldsFrom :: "string option \<Rightarrow> (nat \<times> string) list \<Rightarrow> string list" where
  "fieldsFrom cur [] = (case cur of None \<Rightarrow> [] | Some f \<Rightarrow> [f])"
| "fieldsFrom cur ((r, bs) # rs) =
     (if IsSpace r
      then (case cur of None \<Rightarrow> fieldsFrom None rs | Some f \<Rightarrow> f # fieldsFrom None rs)
      else fieldsFrom (Some (case cur of None \<Rightarrow> bs | Some f \<Rightarrow> f @ bs)) rs)"

definition Fields :: "string \<Rightarrow> string list" where
  "Fields s = fieldsFrom None (stringRunes s)"

fun Join :: "string list \<Rightarrow> string \<Rightarrow> string" where
  "Join [] sep = []"
| "Join [x] sep = x"
| "Join (x # y # zs) sep = x @ sep @ Join (y # zs) sep"

definition digitChar :: "nat \<Rightarrow> char" where
  "digitChar d = ''0123456789'' ! d"

function decimal :: "nat \<Rightarrow> string" where
  "decimal n = (if n < 10 then [digitChar n] else decimal (n div 10) @ [digitChar (n mod 10)])"
  by pat_completeness auto
termination
  by (relation "measure id") auto

declare decimal.simps [simp del]

text \<open>The verb \<^verbatim>\<open>%d\<close>.\<close>

definition fmtD :: "int \<Rightarrow> string" where
  "fmtD i = (if i < 0 then CHR ''-'' # decimal (nat (- i)) else decimal (nat i))"

text \<open>\<^verbatim>\<open>appendInt\<close> of package \<^verbatim>\<open>time\<close>: a non-negative number, zero-padded to a width.\<close>

definition appendInt :: "nat \<Rightarrow> nat \<Rightarrow> string" where
  "appendInt x width = (let d = decimal x in replicate (width - length d) (CHR ''0'') @ d)"

definition hexDigitLower :: "nat \<Rightarrow> char" where
  "hexDigitLower d = ''0123456789abcdef'' ! d"

text \<open>\<^verbatim>\<open>hex.EncodeToString\<close>.\<close>

definition EncodeToString :: "string \<Rightarrow> string" where
  "EncodeToString src =
     concat (map (\<lambda>c. [hexDigitLower (of_char c div 16), hexDigitLower (of_char c mod 16)]) src)"

text \<open>
  A UTC instant as the calendar fields \<^verbatim>\<open>Format\<close> prints, and the two layouts the
  signer uses, \<^verbatim>\<open>20060102T150405Z\<close> and \<^verbatim>\<open>20060102\<close>.
\<close>

record utcTime =
  Year :: nat
  Month :: nat
  Day :: nat
  Hour :: nat
  Minute :: nat
  Second :: nat

definition Format_20060102T150405Z :: "utcTime \<Rightarrow> string" where
  "Format_20060102T150405Z t =
     appendInt (Year t) 4 @ appendInt (Month t) 2 @ appendInt (Day t) 2 @ ''T'' @
     appendInt (Hour t) 2 @ appendInt (Minute t) 2 @ appendInt (Second t) 2 @ ''Z''"

definition Format_20060102 :: "utcTime \<Rightarrow> string" where
  "Format_20060102 t = appendInt (Year t) 4 @ appendInt (Month t) 2 @ appendInt (Day t) 2"

text \<open>
  The wall clock: \<open>readings c n\<close> is what the \<open>n\<close>-th call of \<^verbatim>\<open>time.Now().UTC()\<close>
  returns, \<open>reads c\<close> counts the calls made so far.
\<close>

record clock =
  readings :: "nat \<Rightarrow> utcTime"
  reads :: nat

definition time_Now_UTC :: "clock \<Rightarrow> utcTime \<times> clock" where
  "time_Now_UTC c = (readings c (reads c), c\<lparr>reads := Suc (reads c)\<rparr>)"

text \<open>A Go map is an association list with distinct keys; \<open>m[k]\<close> is the zero value off the keys.\<close>

definition mapIndex :: "(string \<times> string) list \<Rightarrow> string \<Rightarrow> string" where
  "mapIndex m k = (case map_of m k of None \<Rightarrow> [] | Some v \<Rightarrow> v)"

section \<open>The signer\<close>

record AWSSigner =
  accessKey :: string
  secretKey :: string
  region :: string
  service :: string

definition NewAWSSigner :: "string \<Rightarrow> string \<Rightarrow> string \<Rightarrow> string \<Rightarrow> AWSSigner" where
  "NewAWSSigner ak sk rg sv = \<lparr>accessKey = ak, secretKey = sk, region = rg, service = sv\<rparr>"

definition hash :: "stdlib \<Rightarrow> string \<Rightarrow> string" where
  "hash L text = EncodeToString (sha256Sum L text)"

definition hmacSHA256 :: "stdlib \<Rightarrow> string \<Rightarrow> string \<Rightarrow> string" where
  "hmacSHA256 L key data = hmacSum L key data"

definition hmacSHA256Hex :: "stdlib \<Rightarrow> string \<Rightarrow> string \<Rightarrow> string" where
  "hmacSHA256Hex L key data = EncodeToString (hmacSHA256 L key data)"

definition getSignatureKey :: "stdlib \<Rightarrow> string \<Rightarrow> string \<Rightarrow> string \<Rightarrow> string \<Rightarrow> string" where
  "getSignatureKey L secretKey' dateStamp' region' service' =
     (let kSecret = ''AWS4'' @ secretKey';
          kDate = hmacSHA256 L kSecret dateStamp';
          kRegion = hmacSHA256 L kDate region';
          kService = hmacSHA256 L kRegion service';
          kSigning = hmacSHA256 L kService ''aws4_request''
      in kSigning)"

definition buildCanonicalQueryString :: "(string \<times> string) list \<Rightarrow> string" where
  "buildCanonicalQueryString params =
     (let keys = sort (map fst params);
          parts = fold (\<lambda>k parts.
                    let encodedValue = uriEncode (mapIndex params k) True
                    in parts @ [uriEncode k True @ ''='' @ encodedValue]) keys []
      in Join parts ''&'')"

definition buildFinalQueryString :: "(string \<times> string) list \<Rightarrow> string" where
  "buildFinalQueryString params =
     (let keys = sort (map fst params);
          parts = fold (\<lambda>k parts.
                    let encodedKey = uriEncode k True;
                        encodedValue = (if k = ''X-Amz-Credential''
                                        then uriEncode (mapIndex params k) False
                                        else uriEncode (mapIndex params k) True)
                    in parts @ [encodedKey @ ''='' @ encodedValue]) keys []
      in Join parts ''&'')"

text \<open>The body of the loop over \<^verbatim>\<open>metadata\<close>: the header name and value written into \<^verbatim>\<open>headers\<close>.\<close>

definition metaHeaderKey :: "stdlib \<Rightarrow> string \<Rightarrow> string" where
  "metaHeaderKey L k =
     (let normalizedKey = ReplaceAllByte k (CHR ''_'') (CHR ''-'')
      in ToLower L (''x-amz-meta-'' @ normalizedKey))"

definition metaHeaderValue :: "string \<Rightarrow> string" where
  "metaHeaderValue v =
     (let headerValue = TrimSpace v
      in Join (Fields headerValue) '' '')"

definition newline :: string where
  "newline = [CHR 0x0A]"

text \<open>
  The local variables of \<^verbatim>\<open>GeneratePresignedPutURL\<close>, in the order the function computes
  them from the sampled instant \<open>now\<close>. \<open>metadata\<close> lists the entries of the map in the
  order the \<^verbatim>\<open>range\<close> loop visits them.
\<close>

record signing =
  amzDate :: string
  dateStamp :: string
  host :: string
  canonicalURI :: string
  headers :: "(string \<times> string) list"
  headerKeys :: "string list"
  canonicalHeaders :: string
  signedHeaders :: string
  queryParams :: "(string \<times> string) list"
  canonicalQueryString :: string
  payloadHash :: string
  canonicalRequest :: string
  credentialScope :: string
  stringToSign :: string
  signingKey :: string
  signature :: string
  signedQueryParams :: "(string \<times> string) list"
  finalQueryString :: string
  presignedURL :: string

definition signWith ::
  "stdlib \<Rightarrow> AWSSigner \<Rightarrow> utcTime \<Rightarrow> string \<Rightarrow> string \<Rightarrow> string \<Rightarrow> (string \<times> string) list \<Rightarrow> int \<Rightarrow> signing"
where
  "signWith L s now bucket key contentType metadata expiration =
     (let amzDate' = Format_20060102T150405Z now;
          dateStamp' = Format_20060102 now;
          host' = bucket @ ''.s3.'' @ region s @ ''.amazonaws.com'';
          canonicalURI' = ''/'' @ key;
          headers' = fold (\<lambda>(k, v) hs. AList.update (metaHeaderKey L k) (metaHeaderValue v) hs)
                       metadata [(''host'', host')];
          headerKeys' = sort (map fst headers');
          canonicalHeadersParts = fold (\<lambda>k parts.
                                     let headerValue = TrimSpace (mapIndex headers' k)
                                     in parts @ [k @ '':'' @ headerValue]) headerKeys' [];
          canonicalHeaders' = Join canonicalHeadersParts newline @ newline;
          signedHeaders' = Join headerKeys' '';'';
          queryParams' =
            [(''X-Amz-Algorithm'', ''AWS4-HMAC-SHA256''),
             (''X-Amz-Credential'',
                accessKey s @ ''/'' @ dateStamp' @ ''/'' @ region s @ ''/'' @ service s @ ''/aws4_request''),
             (''X-Amz-Date'', amzDate'),
             (''X-Amz-Expires'', fmtD (durationSeconds L expiration)),
             (''X-Amz-SignedHeaders'', signedHeaders')];
          canonicalQueryString' = buildCanonicalQueryString queryParams';
          payloadHash' = ''UNSIGNED-PAYLOAD'';
          canonicalRequest' =
            ''PUT'' @ newline @ canonicalURI' @ newline @ canonicalQueryString' @ newline @
            canonicalHeaders' @ newline @ signedHeaders' @ newline @ payloadHash';
          algorithm = ''AWS4-HMAC-SHA256'';
          credentialScope' = dateStamp' @ ''/'' @ region s @ ''/'' @ service s @ ''/aws4_request'';
          stringToSign' =
            algorithm @ newline @ amzDate' @ newline @ credentialScope' @ newline @
            hash L canonicalRequest';
          signingKey' = getSignatureKey L (secretKey s) dateStamp' (region s) (service s);
          signature' = hmacSHA256Hex L signingKey' stringToSign';
          signedQueryParams' = AList.update ''X-Amz-Signature'' signature' queryParams';
          finalQueryString' = buildFinalQueryString signedQueryParams';
          presignedURL' = ''https://'' @ host' @ canonicalURI' @ ''?'' @ finalQueryString'
      in \<lparr>amzDate = amzDate', dateStamp = dateStamp', host = host', canonicalURI = canonicalURI',
          headers = headers', headerKeys = headerKeys', canonicalHeaders = canonicalHeaders',
          signedHeaders = signedHeaders', queryParams = queryParams',
          canonicalQueryString = canonicalQueryString', payloadHash = payloadHash',
          canonicalRequest = canonicalRequest', credentialScope = credentialScope',
          stringToSign = stringToSign', signingKey = signingKey', signature = signature',
          signedQueryParams = signedQueryParams', finalQueryString = finalQueryString',
          presignedURL = presignedURL'\<rparr>)"

text \<open>
  \<^verbatim>\<open>GeneratePresignedPutURL\<close>: read the clock, compute the URL; the error returned is
  always \<^verbatim>\<open>nil\<close> (\<open>None\<close>).
\<close>

definition GeneratePresignedPutURL ::
  "stdlib \<Rightarrow> AWSSigner \<Rightarrow> clock \<Rightarrow> string \<Rightarrow> string \<Rightarrow> string \<Rightarrow> (string \<times> string) list \<Rightarrow> int
     \<Rightarrow> (string \<times> string option) \<times> clock"
where
  "GeneratePresignedPutURL L s c bucket key contentType metadata expiration =
     (case time_Now_UTC c of
        (now, c') \<Rightarrow>
          ((presignedURL (signWith L s now bucket key contentType metadata expiration), None), c'))"


text \<open>
  The names the specification uses for the loop body: a metadata key ``with every
  underscore replaced by a hyphen and lowercased'', and a value with its leading and
  trailing white space removed and every inner run of white space collapsed to one space.
\<close>

definition normalizeKey_spec :: "stdlib \<Rightarrow> string \<Rightarrow> string" where
  "normalizeKey_spec L k = ToLower L (ReplaceAllByte k (CHR ''_'') (CHR ''-''))"

fun collapseRuns_spec :: "(nat \<times> string) list \<Rightarrow> string" where
  "collapseRuns_spec [] = []"
| "collapseRuns_spec ((r, bs) # rs) =
     (if IsSpace r
      then (case rs of
              [] \<Rightarrow> []
            | x # _ \<Rightarrow> if spaceRune x then collapseRuns_spec rs else '' '' @ collapseRuns_spec rs)
      else bs @ collapseRuns_spec rs)"

definition normalizeValue_spec :: "string \<Rightarrow> string" where
  "normalizeValue_spec v = collapseRuns_spec (dropWhile spaceRune (stringRunes v))"

text \<open>
  The runes of a normalised value, one \<^verbatim>\<open>U+0020\<close> for every inner run of white space,
  and the bytes that can only continue a multi-byte sequence; both serve to show that
  decoding a normalised value again gives these runes, so that trimming it changes nothing.
\<close>

fun collapseRunes :: "(nat \<times> string) list \<Rightarrow> (nat \<times> string) list" where
  "collapseRunes [] = []"
| "collapseRunes ((r, bs) # rs) =
     (if IsSpace r
      then (case rs of
              [] \<Rightarrow> []
            | x # _ \<Rightarrow> if spaceRune x then collapseRunes rs else (0x20, '' '') # collapseRunes rs)
      else (r, bs) # collapseRunes rs)"

definition contChar :: "char \<Rightarrow> bool" where
  "contChar c = contByte (of_char c)"

section \<open>Configuration loading\<close>

text \<open>
  The environment is the process environment after \<^verbatim>\<open>godotenv.Load\<close> has run;
  \<^verbatim>\<open>os.Getenv\<close> returns the empty string for a variable that is not set.
\<close>

definition os_Getenv :: "(string \<Rightarrow> string option) \<Rightarrow> string \<Rightarrow> string" where
  "os_Getenv env key = (case env key of None \<Rightarrow> [] | Some v \<Rightarrow> v)"

definition getEnv :: "(string \<Rightarrow> string option) \<Rightarrow> string \<Rightarrow> string \<Rightarrow> string" where
  "getEnv env key defaultValue =
     (let val = os_Getenv env key in if val \<noteq> [] then val else defaultValue)"

definition isDigit :: "char \<Rightarrow> bool" where
  "isDigit c = (0x30 \<le> (of_char c :: nat) \<and> (of_char c :: nat) \<le> 0x39)"

definition digitsValue :: "string \<Rightarrow> nat" where
  "digitsValue ds = foldl (\<lambda>n c. n * 10 + (of_char c - 0x30)) 0 ds"

text \<open>
  \<^verbatim>\<open>strconv.Atoi\<close> on a 64-bit platform: an optional sign, then one or more decimal
  digits, and a value that fits \<^verbatim>\<open>int\<close>; anything else is an error (\<open>None\<close>).
\<close>

definition Atoi :: "string \<Rightarrow> int option" where
  "Atoi s =
     (case s of
        [] \<Rightarrow> None
      | c # t \<Rightarrow>
          (let digits = (if c = CHR ''-'' \<or> c = CHR ''+'' then t else s);
               n = int (digitsValue digits);
               v = (if c = CHR ''-'' then - n else n)
           in if digits \<noteq> [] \<and> list_all isDigit digits \<and> - (2 ^ 63) \<le> v \<and> v \<le> 2 ^ 63 - 1
              then Some v else None))"

record Config =
  AWSRegion :: string
  AWSAccessKeyID :: string
  AWSSecretAccessKey :: string
  S3BucketName :: string
  CompanyPrefix :: string
  PresignedURLExpirationMinutes :: int
  Port :: string

datatype configError =
  InvalidExpirationMinutes
  | AccessKeyIDRequired
  | SecretAccessKeyRequired
  | BucketNameRequired

definition LoadConfig :: "(string \<Rightarrow> string option) \<Rightarrow> configError + Config" where
  "LoadConfig env =
     (let config = \<lparr>AWSRegion = getEnv env ''AWS_REGION'' ''us-east-1'',
                     AWSAccessKeyID = getEnv env ''AWS_ACCESS_KEY_ID'' [],
                     AWSSecretAccessKey = getEnv env ''AWS_SECRET_ACCESS_KEY'' [],
                     S3BucketName = getEnv env ''S3_BUCKET_NAME'' [],
                     CompanyPrefix = getEnv env ''COMPANY_PREFIX'' [],
                     PresignedURLExpirationMinutes = 0,
                     Port = getEnv env ''PORT'' ''8080''\<rparr>;
          expirationStr = getEnv env ''PRESIGNED_URL_EXPIRATION_MINUTES'' ''3''
      in case Atoi expirationStr of
           None \<Rightarrow> Inl InvalidExpirationMinutes
         | Some expiration \<Rightarrow>
             (let config = config\<lparr>PresignedURLExpirationMinutes := expiration\<rparr>
              in if AWSAccessKeyID config = [] then Inl AccessKeyIDRequired
                 else if AWSSecretAccessKey config = [] then Inl SecretAccessKeyRequired
                 else if S3BucketName config = [] then Inl BucketNameRequired
                 else Inr config))"

section \<open>Searching an object by file name\<close>

text \<open>
  \<^verbatim>\<open>ListObjectsV2\<close> is the S3 client's call: given the bucket and the prefix it returns an
  error or the listed objects, each with an optional key.
\<close>

record S3Service =
  signer :: AWSSigner
  bucketName :: string
  companyPrefix :: string
  serviceRegion :: string
  expiration :: int

fun searchContents :: "string option list \<Rightarrow> string \<Rightarrow> bool \<times> string \<times> string option" where
  "searchContents [] filename = (False, [], None)"
| "searchContents (obj # rest) filename =
     (case obj of
        None \<Rightarrow> searchContents rest filename
      | Some key \<Rightarrow>
          if length filename \<le> length key \<and> drop (length key - length filename) key = filename
          then (True, key, None)
          else searchContents rest filename)"

definition SearchObjectByFilename ::
  "(string \<Rightarrow> string \<Rightarrow> string + string option list) \<Rightarrow> S3Service \<Rightarrow> string
     \<Rightarrow> bool \<times> string \<times> string option"
where
  "SearchObjectByFilename ListObjectsV2 s filename =
     (let searchPrefix = (if companyPrefix s = [] then ''inputs/'' else companyPrefix s @ ''/'')
      in case ListObjectsV2 (bucketName s) searchPrefix of
           Inl err \<Rightarrow> (False, [], Some (''failed to list objects: '' @ err))
         | Inr contents \<Rightarrow> searchContents contents filename)"

section \<open>Concrete inputs\<close>

text \<open>Inputs at which the general theorems are instantiated and the scenarios evaluated.\<close>

definition exampleLib :: stdlib where
  "exampleLib =
     \<lparr>toLowerTable = (\<lambda>r. r), sha256Sum = (\<lambda>m. m), hmacSum = (\<lambda>k m. k @ m),
      durationSeconds = (\<lambda>d. if d < 0 then - ((- d) div 1000000000) else d div 1000000000)\<rparr>"

definition exampleSigner :: AWSSigner where
  "exampleSigner = NewAWSSigner ''AKIDEXAMPLE'' ''secret'' ''us-east-1'' ''s3''"

definition exampleTime :: utcTime where
  "exampleTime = \<lparr>Year = 2024, Month = 1, Day = 16, Hour = 14, Minute = 30, Second = 0\<rparr>"

definition exampleClock :: clock where
  "exampleClock = \<lparr>readings = (\<lambda>n. exampleTime\<lparr>Second := n\<rparr>), reads = 0\<rparr>"

definition exampleEnv :: "string \<Rightarrow> string option" where
  "exampleEnv =
     map_of [(''AWS_ACCESS_KEY_ID'', ''AKIDEXAMPLE''), (''AWS_SECRET_ACCESS_KEY'', ''secret''),
             (''S3_BUCKET_NAME'', ''test-bucket'')]"

definition exampleService :: S3Service where
  "exampleService =
     \<lparr>signer = exampleSigner, bucketName = ''test-bucket'', companyPrefix = [],
      serviceRegion = ''us-east-1'', expiration = 180000000000\<rparr>"

definition exampleListing :: "string \<Rightarrow> string \<Rightarrow> string + string option list" where
  "exampleListing bucket pfx =
     Inr [None, Some ''inputs/2024-01-16/14-30-00/report.pdf'',
          Some ''inputs/2024-01-16/14-30-00/myfile.txt'',
          Some ''inputs/2024-01-16/14-31-00/file.txt'']"

section \<open>Auxiliary facts\<close>

lemma hexUpper_small: "n < 16 \<Longrightarrow> hexUpper n = [hexDigitUpper n]"
  by (simp add: hexUpper.simps)

lemma hexUpper_big: "16 \<le> n \<Longrightarrow> hexUpper n = hexUpper (n div 16) @ [hexDigitUpper (n mod 16)]"
  by (subst hexUpper.simps) simp

lemma decimal_small: "n < 10 \<Longrightarrow> decimal n = [digitChar n]"
  by (simp add: decimal.simps)

lemma decimal_big: "10 \<le> n \<Longrightarrow> decimal n = decimal (n div 10) @ [digitChar (n mod 10)]"
  by (subst decimal.simps) simp

lemma fold_snoc_map: "fold (\<lambda>k parts. parts @ [g k]) ks acc = acc @ map g ks"
  by (induction ks arbitrary: acc) simp_all

lemma Join_Cons: "Join (x # xs) sep = (if xs = [] then x else x @ sep @ Join xs sep)"
  by (cases xs) simp_all

lemma Join_terminated: "xs \<noteq> [] \<Longrightarrow> Join xs sep @ sep = concat (map (\<lambda>x. x @ sep) xs)"
  by (induction xs sep rule: Join.induct) simp_all

lemma signWith_contentType:
  "signWith L s now bucket key contentType1 metadata expires =
   signWith L s now bucket key contentType2 metadata expires"
  unfolding signWith_def by (rule refl)

lemma signWith_fields:
  fixes L s now bucket key ct md e
  defines "l \<equiv> signWith L s now bucket key ct md e"
  shows sw_amzDate: "amzDate l = Format_20060102T150405Z now"
    and sw_dateStamp: "dateStamp l = Format_20060102 now"
    and sw_host: "host l = bucket @ ''.s3.'' @ region s @ ''.amazonaws.com''"
    and sw_canonicalURI: "canonicalURI l = ''/'' @ key"
    and sw_headers: "headers l =
          fold (\<lambda>(k, v) hs. AList.update (metaHeaderKey L k) (metaHeaderValue v) hs) md
            [(''host'', host l)]"
    and sw_headerKeys: "headerKeys l = sort (map fst (headers l))"
    and sw_canonicalHeaders: "canonicalHeaders l =
          Join (fold (\<lambda>k parts. let headerValue = TrimSpace (mapIndex (headers l) k)
                                  in parts @ [k @ '':'' @ headerValue]) (headerKeys l) []) newline
          @ newline"
    and sw_signedHeaders: "signedHeaders l = Join (headerKeys l) '';''"
    and sw_queryParams: "queryParams l =
            [(''X-Amz-Algorithm'', ''AWS4-HMAC-SHA256''),
             (''X-Amz-Credential'',
                accessKey s @ ''/'' @ dateStamp l @ ''/'' @ region s @ ''/'' @ service s @ ''/aws4_request''),
             (''X-Amz-Date'', amzDate l),
             (''X-Amz-Expires'', fmtD (durationSeconds L e)),
             (''X-Amz-SignedHeaders'', signedHeaders l)]"
    and sw_canonicalQueryString: "canonicalQueryString l = buildCanonicalQueryString (queryParams l)"
    and sw_payloadHash: "payloadHash l = ''UNSIGNED-PAYLOAD''"
    and sw_canonicalRequest: "canonicalRequest l =
            ''PUT'' @ newline @ canonicalURI l @ newline @ canonicalQueryString l @ newline @
            canonicalHeaders l @ newline @ signedHeaders l @ newline @ payloadHash l"
    and sw_credentialScope: "credentialScope l =
            dateStamp l @ ''/'' @ region s @ ''/'' @ service s @ ''/aws4_request''"
    and sw_stringToSign: "stringToSign l =
            ''AWS4-HMAC-SHA256'' @ newline @ amzDate l @ newline @ credentialScope l @ newline @
            hash L (canonicalRequest l)"
    and sw_signingKey: "signingKey l = getSignatureKey L (secretKey s) (dateStamp l) (region s) (service s)"
    and sw_signature: "signature l = hmacSHA256Hex L (signingKey l) (stringToSign l)"
    and sw_signedQueryParams: "signedQueryParams l = AList.update ''X-Amz-Signature'' (signature l) (queryParams l)"
    and sw_finalQueryString: "finalQueryString l = buildFinalQueryString (signedQueryParams l)"
    and sw_presignedURL: "presignedURL l = ''https://'' @ host l @ canonicalURI l @ ''?'' @ finalQueryString l"
  unfolding l_def signWith_def Let_def by (simp_all only: signing.select_convs)

lemma fold_update_keys:
  "fst ` set (fold (\<lambda>(k, v) hs. AList.update (f k) (g v) hs) md init) =
     fst ` set init \<union> f ` fst ` set md"
  by (induction md arbitrary: init) (auto simp add: dom_update split: prod.splits)

lemma fold_update_distinct:
  "distinct (map fst init) \<Longrightarrow>
     distinct (map fst (fold (\<lambda>(k, v) hs. AList.update (f k) (g v) hs) md init))"
  by (induction md arbitrary: init) (auto simp add: distinct_update split: prod.splits)

lemma stringRunes_ascii:
  "of_char c < (128::nat) \<Longrightarrow> stringRunes (c # cs) = (of_char c, [c]) # stringRunes cs"
  by (simp add: decoderune_def)

lemma runeString_ascii: "of_char c < (128::nat) \<Longrightarrow> runeString (of_char c) = [c]"
  by (simp add: runeString_def)

lemma ToLower_Cons_lower:
  "of_char c < (0x41::nat) \<or> (0x5A < (of_char c :: nat) \<and> of_char c < (128::nat)) \<Longrightarrow>
     ToLower L (c # s) = c # ToLower L s"
  by (auto simp add: ToLower_def stringRunes_ascii unicode_ToLower_def runeString_ascii
      simp del: stringRunes.simps(2))

lemma metaHeaderKey_spec: "metaHeaderKey L k = ''x-amz-meta-'' @ normalizeKey_spec L k"
  by (simp add: metaHeaderKey_def normalizeKey_spec_def Let_def ToLower_Cons_lower)

lemma sort_distinct: "distinct xs \<Longrightarrow> sort xs = sorted_list_of_set (set xs)"
  by (simp add: sorted_list_of_set_sort_remdups distinct_remdups_id)

text \<open>
  The keys of a Go map are distinct and come out of \<^verbatim>\<open>range\<close> in no fixed order; once
  sorted, every order gives the same list.
\<close>

lemma sort_any_order:
  "distinct ks \<Longrightarrow> distinct ks' \<Longrightarrow> set ks = set ks' \<Longrightarrow> sort ks = sort (ks' :: string list)"
  by (simp add: sort_distinct)

lemma fmt02X_byte: "n < 256 \<Longrightarrow> fmt02X n = [hexDigitUpper (n div 16), hexDigitUpper (n mod 16)]"
  by (cases "n < 16") (simp_all add: fmt02X_def hexUpper_small hexUpper_big hexDigitUpper_def)

lemma uriEncodeRune_ascii:
  "of_char c < (128::nat) \<Longrightarrow> uriEncodeRune e (of_char c) = uriEncodeByte_spec e c"
proof -
  assume a: "of_char c < (128::nat)"
  have lt: "of_char c < (256::nat)" by simp
  have eqs: "\<And>d. (of_char c = (of_char d :: nat)) = (c = d)" by simp
  show ?thesis
    unfolding uriEncodeRune_def uriEncodeByte_spec_def unreservedByte_def Let_def
      runeString_ascii [OF a] fmt02X_byte [OF lt]
    by simp
qed

lemma uriEncode_ascii:
  "list_all (\<lambda>c. of_char c < (128::nat)) input \<Longrightarrow> uriEncode input e = uriEncode_spec input e"
  by (induction input)
    (simp_all add: uriEncode_def uriEncode_spec_def stringRunes_ascii uriEncodeRune_ascii
      del: stringRunes.simps(2))

lemma headers_nonempty: "headers (signWith L s now bucket key ct md e) \<noteq> []"
proof
  assume "headers (signWith L s now bucket key ct md e) = []"
  then have "fst ` set (headers (signWith L s now bucket key ct md e)) = {}" by simp
  then show False unfolding sw_headers fold_update_keys by simp
qed

lemma sort_eq_Nil: "(sort xs = []) = (xs = [])"
  by (cases xs) (simp_all add: insort_is_Cons)

lemma suffix_iff_drop:
  "suffix f k = (length f \<le> length k \<and> drop (length k - length f) k = f)"
proof
  assume "suffix f k"
  then obtain zs where "k = zs @ f" by (auto simp add: suffix_def)
  then show "length f \<le> length k \<and> drop (length k - length f) k = f" by simp
next
  assume a: "length f \<le> length k \<and> drop (length k - length f) k = f"
  have "k = take (length k - length f) k @ drop (length k - length f) k" by simp
  with a have "k = take (length k - length f) k @ f" by simp
  then show "suffix f k" unfolding suffix_def by blast
qed

lemma searchContents_find:
  "searchContents contents filename =
     (case find (suffix filename) (List.map_filter (\<lambda>x. x) contents) of
        None \<Rightarrow> (False, [], None)
      | Some k \<Rightarrow> (True, k, None))"
  by (induction contents) (auto simp add: List.map_filter_simps suffix_iff_drop split: option.splits)

lemma getEnv_empty_default: "getEnv env k [] = os_Getenv env k"
  by (simp add: getEnv_def Let_def)

lemma decode2_take: "decode2 b0 t = (r, w) \<Longrightarrow> w - 1 \<le> n \<Longrightarrow> decode2 b0 (take n t) = (r, w)"
  by (cases t; cases n) (auto simp add: decode2_def Let_def split: if_splits)

lemma decode3_take: "decode3 b0 t = (r, w) \<Longrightarrow> w - 1 \<le> n \<Longrightarrow> decode3 b0 (take n t) = (r, w)"
  by (auto simp add: decode3_def Let_def take_Cons' split: list.splits if_splits)

lemma decode4_take: "decode4 b0 t = (r, w) \<Longrightarrow> w - 1 \<le> n \<Longrightarrow> decode4 b0 (take n t) = (r, w)"
  by (auto simp add: decode4_def Let_def take_Cons' split: list.splits if_splits)

lemma decoderune_take:
  "decoderune (c # cs) = (r, w) \<Longrightarrow> w - 1 \<le> n \<Longrightarrow> decoderune (c # take n cs) = (r, w)"
  by (auto simp add: decoderune_def Let_def decode2_take decode3_take decode4_take split: if_splits)

lemma stringRunes_bytes: "concat (map snd (stringRunes s)) = s"
  by (induction s rule: stringRunes.induct) (auto split: prod.splits)

lemma stringRunes_drop: "\<exists>s'. drop j (stringRunes s) = stringRunes s'"
proof (induction j arbitrary: s)
  case 0
  show ?case by auto
next
  case (Suc j)
  show ?case
  proof (cases s)
    case Nil
    have "drop (Suc j) (stringRunes []) = stringRunes []" by simp
    with Nil show ?thesis by blast
  next
    case (Cons c cs)
    obtain r w where d: "decoderune (c # cs) = (r, w)" by (cases "decoderune (c # cs)")
    from Suc [of "drop (w - 1) cs"] Cons d show ?thesis by simp
  qed
qed

lemma stringRunes_take: "\<exists>m. take k (stringRunes s) = stringRunes (take m s)"
proof (induction k arbitrary: s)
  case 0
  have "take 0 (stringRunes s) = stringRunes (take 0 s)" by simp
  then show ?case by blast
next
  case (Suc k)
  show ?case
  proof (cases s)
    case Nil
    then show ?thesis by simp
  next
    case (Cons c cs)
    obtain r w where d: "decoderune (c # cs) = (r, w)" by (cases "decoderune (c # cs)")
    from Suc [of "drop (w - 1) cs"] obtain m'
      where m': "take k (stringRunes (drop (w - 1) cs)) = stringRunes (take m' (drop (w - 1) cs))"
      by blast
    have d': "decoderune (c # take (w - 1 + m') cs) = (r, w)"
      by (rule decoderune_take [OF d]) simp
    have "take (Suc k) (stringRunes (c # cs)) = stringRunes (take (Suc (w - 1 + m')) (c # cs))"
      using d d' m' by (simp add: drop_take min_def)
    with Cons show ?thesis by blast
  qed
qed

lemma rev_dropWhile_rev_take: "\<exists>k. rev (dropWhile P (rev xs)) = take k xs"
proof -
  have "rev (dropWhile P (rev xs)) = rev (drop (length (takeWhile P (rev xs))) (rev xs))"
    by (simp add: dropWhile_eq_drop)
  also have "\<dots> = take (length xs - length (takeWhile P (rev xs))) xs"
    by (simp add: rev_drop)
  finally show ?thesis by blast
qed

lemma trimRunes_decodes: "\<exists>s'. trimRunes (stringRunes s) = stringRunes s'"
proof -
  obtain s1 where s1: "dropWhile spaceRune (stringRunes s) = stringRunes s1"
    using stringRunes_drop [of "length (takeWhile spaceRune (stringRunes s))" s]
    by (auto simp add: dropWhile_eq_drop)
  obtain k where k: "rev (dropWhile spaceRune (rev (stringRunes s1))) = take k (stringRunes s1)"
    using rev_dropWhile_rev_take by blast
  obtain m where "take k (stringRunes s1) = stringRunes (take m s1)"
    using stringRunes_take by blast
  with s1 k show ?thesis unfolding trimRunes_def by auto
qed

lemma stringRunes_TrimSpace: "stringRunes (TrimSpace s) = trimRunes (stringRunes s)"
proof -
  obtain s' where s': "trimRunes (stringRunes s) = stringRunes s'"
    using trimRunes_decodes by blast
  then show ?thesis unfolding TrimSpace_def by (simp add: stringRunes_bytes)
qed

lemma fieldsFrom_Some_nonempty: "fieldsFrom (Some f) rs \<noteq> []"
proof (induction rs arbitrary: f)
  case Nil
  show ?case by simp
next
  case (Cons y rs)
  obtain r bs where y: "y = (r, bs)" by (cases y)
  show ?case using Cons [of "f @ bs"] by (cases "IsSpace r") (simp_all add: y)
qed

lemma fieldsFrom_snoc_space:
  "spaceRune x \<Longrightarrow> fieldsFrom cur (rs @ [x]) = fieldsFrom cur rs"
proof (induction rs arbitrary: cur)
  case Nil
  then show ?case by (cases x; cases cur) (simp_all add: spaceRune_def)
next
  case (Cons y rs)
  obtain r bs where y: "y = (r, bs)" by (cases y)
  from Cons.IH [OF Cons.prems] show ?case by (cases cur) (simp_all add: y)
qed

lemma fieldsFrom_trim_right:
  "fieldsFrom cur (rev (dropWhile spaceRune (rev rs))) = fieldsFrom cur rs"
  by (induction rs rule: rev_induct) (simp_all add: fieldsFrom_snoc_space)

lemma fieldsFrom_trim_left:
  "fieldsFrom None (dropWhile spaceRune rs) = fieldsFrom None rs"
  by (induction rs) (auto simp add: spaceRune_def)

lemma fieldsFrom_trimRunes: "fieldsFrom None (trimRunes rs) = fieldsFrom None rs"
  unfolding trimRunes_def by (simp add: fieldsFrom_trim_right fieldsFrom_trim_left)

lemma collapseRuns_spec_space:
  "spaceRune x \<Longrightarrow> collapseRuns_spec (x # y # rs) =
     (if spaceRune y then collapseRuns_spec (y # rs) else '' '' @ collapseRuns_spec (y # rs))"
  by (cases x) (simp add: spaceRune_def)

lemma collapseRuns_spec_space_Nil: "spaceRune x \<Longrightarrow> collapseRuns_spec [x] = []"
  by (cases x) (simp add: spaceRune_def)

lemma collapseRuns_spec_nonspace:
  "\<not> IsSpace r \<Longrightarrow> collapseRuns_spec ((r, bs) # rs) = bs @ collapseRuns_spec rs"
  by simp

lemma Join_fields_collapse:
  "(\<forall>f. Join (fieldsFrom (Some f) rs) '' '' = f @ collapseRuns_spec rs) \<and>
   (\<forall>x. spaceRune x \<longrightarrow>
      collapseRuns_spec (x # rs) =
        (if fieldsFrom None rs = [] then [] else '' '' @ Join (fieldsFrom None rs) '' ''))"
proof (induction rs)
  case Nil
  show ?case by (simp add: collapseRuns_spec_space_Nil)
next
  case (Cons y rs)
  obtain r bs where y: "y = (r, bs)" by (cases y)
  from Cons have ih1: "\<And>f. Join (fieldsFrom (Some f) rs) '' '' = f @ collapseRuns_spec rs"
    and ih2: "\<And>x. spaceRune x \<Longrightarrow> collapseRuns_spec (x # rs) =
        (if fieldsFrom None rs = [] then [] else '' '' @ Join (fieldsFrom None rs) '' '')"
    by blast+
  show ?case
  proof (cases "IsSpace r")
    case True
    then have sy: "spaceRune y" by (simp add: y spaceRune_def)
    have a: "\<And>f. Join (fieldsFrom (Some f) (y # rs)) '' '' = f @ collapseRuns_spec (y # rs)"
      unfolding ih2 [OF sy] using True by (simp add: y Join_Cons)
    have b: "\<And>x. spaceRune x \<Longrightarrow> collapseRuns_spec (x # y # rs) =
        (if fieldsFrom None (y # rs) = [] then [] else '' '' @ Join (fieldsFrom None (y # rs)) '' '')"
    proof -
      fix x :: "nat \<times> string"
      assume sx: "spaceRune x"
      have f: "fieldsFrom None (y # rs) = fieldsFrom None rs" using True by (simp add: y)
      show "collapseRuns_spec (x # y # rs) =
        (if fieldsFrom None (y # rs) = [] then [] else '' '' @ Join (fieldsFrom None (y # rs)) '' '')"
        unfolding collapseRuns_spec_space [OF sx] f using sy ih2 [OF sy] by simp
    qed
    from a b show ?thesis by blast
  next
    case False
    then have sy: "\<not> spaceRune y" by (simp add: y spaceRune_def)
    have a: "\<And>f. Join (fieldsFrom (Some f) (y # rs)) '' '' = f @ collapseRuns_spec (y # rs)"
      using False ih1 by (simp add: y)
    have b: "\<And>x. spaceRune x \<Longrightarrow> collapseRuns_spec (x # y # rs) =
        (if fieldsFrom None (y # rs) = [] then [] else '' '' @ Join (fieldsFrom None (y # rs)) '' '')"
    proof -
      fix x :: "nat \<times> string"
      assume sx: "spaceRune x"
      have f: "fieldsFrom None (y # rs) = fieldsFrom (Some bs) rs" using False by (simp add: y)
      show "collapseRuns_spec (x # y # rs) =
        (if fieldsFrom None (y # rs) = [] then [] else '' '' @ Join (fieldsFrom None (y # rs)) '' '')"
        unfolding collapseRuns_spec_space [OF sx] f ih1
        using sy False by (simp add: y fieldsFrom_Some_nonempty)
    qed
    from a b show ?thesis by blast
  qed
qed

lemma Join_fields_spec:
  "Join (fieldsFrom None rs) '' '' = collapseRuns_spec (dropWhile spaceRune rs)"
proof (induction rs)
  case Nil
  show ?case by simp
next
  case (Cons y rs)
  obtain r bs where y: "y = (r, bs)" by (cases y)
  show ?case
  proof (cases "IsSpace r")
    case True
    with Cons y show ?thesis by (simp add: spaceRune_def)
  next
    case False
    have "Join (fieldsFrom (Some bs) rs) '' '' = bs @ collapseRuns_spec rs"
      using Join_fields_collapse [of rs] by blast
    with False y show ?thesis by (simp add: spaceRune_def)
  qed
qed

lemma metaHeaderValue_spec: "metaHeaderValue v = normalizeValue_spec v"
  unfolding metaHeaderValue_def normalizeValue_spec_def Let_def Fields_def
  by (simp add: stringRunes_TrimSpace fieldsFrom_trimRunes Join_fields_spec)

lemma fold_update_lookup:
  "(\<forall>(k', v') \<in> set md. f k' = x \<longrightarrow> g v' = y) \<Longrightarrow>
   (\<exists>(k', v') \<in> set md. f k' = x) \<or> map_of init x = Some y \<Longrightarrow>
   map_of (fold (\<lambda>(k, v) hs. AList.update (f k) (g v) hs) md init) x = Some y"
proof (induction md arbitrary: init)
  case Nil
  then show ?case by simp
next
  case (Cons p md)
  obtain k v where p: "p = (k, v)" by (cases p)
  have a: "\<forall>(k', v') \<in> set md. f k' = x \<longrightarrow> g v' = y" using Cons.prems(1) by simp
  have b: "(\<exists>(k', v') \<in> set md. f k' = x) \<or> map_of (AList.update (f k) (g v) init) x = Some y"
  proof (cases "f k = x")
    case True
    with Cons.prems(1) p have "g v = y" by simp
    with True show ?thesis by (simp add: update_conv')
  next
    case False
    with Cons.prems(2) p show ?thesis by (auto simp add: update_conv')
  qed
  from Cons.IH [OF a b] show ?case by (simp add: p)
qed

lemma ToLower_Nil: "ToLower L [] = []"
  by (simp add: ToLower_def)

lemmas string_eval = normalizeKey_spec_def ReplaceAllByte_def ToLower_Cons_lower ToLower_Nil
  normalizeValue_spec_def stringRunes_ascii spaceRune_def IsSpace_def

lemma collapseRunes_space:
  "spaceRune x \<Longrightarrow> collapseRunes (x # y # rs) =
     (if spaceRune y then collapseRunes (y # rs) else (0x20, '' '') # collapseRunes (y # rs))"
  by (cases x) (simp add: spaceRune_def)

lemma collapseRunes_space_Nil: "spaceRune x \<Longrightarrow> collapseRunes [x] = []"
  by (cases x) (simp add: spaceRune_def)

lemma collapseRunes_nonspace: "\<not> spaceRune x \<Longrightarrow> collapseRunes (x # rs) = x # collapseRunes rs"
  by (cases x) (simp add: spaceRune_def)

lemma collapseRuns_spec_nonspace': "\<not> spaceRune x \<Longrightarrow> collapseRuns_spec (x # rs) = snd x @ collapseRuns_spec rs"
  by (cases x) (simp add: spaceRune_def)

lemma collapseRuns_spec_bytes: "collapseRuns_spec rs = concat (map snd (collapseRunes rs))"
proof (induction rs)
  case Nil
  show ?case by simp
next
  case (Cons x rs)
  show ?case
  proof (cases "spaceRune x")
    case False
    then show ?thesis
      unfolding collapseRuns_spec_nonspace' [OF False] collapseRunes_nonspace [OF False] Cons.IH
      by simp
  next
    case True
    show ?thesis
    proof (cases rs)
      case Nil
      then show ?thesis
        unfolding Nil collapseRuns_spec_space_Nil [OF True] collapseRunes_space_Nil [OF True]
        by simp
    next
      case (Cons y rs')
      show ?thesis
        using Cons.IH
        unfolding Cons collapseRuns_spec_space [OF True] collapseRunes_space [OF True]
        by simp
    qed
  qed
qed

lemma decode2_width: "decode2 b0 t = (r, w) \<Longrightarrow> 0 < w \<and> w - 1 \<le> length (takeWhile contChar t)"
proof (cases t)
  case Nil
  then show "decode2 b0 t = (r, w) \<Longrightarrow> ?thesis" by (auto simp add: decode2_def)
next
  case (Cons c1 t1)
  then show "decode2 b0 t = (r, w) \<Longrightarrow> ?thesis"
    by (auto simp add: decode2_def Let_def contChar_def split: if_splits)
qed

lemma decode3_width: "decode3 b0 t = (r, w) \<Longrightarrow> 0 < w \<and> w - 1 \<le> length (takeWhile contChar t)"
proof (cases t)
  case Nil
  then show "decode3 b0 t = (r, w) \<Longrightarrow> ?thesis" by (auto simp add: decode3_def)
next
  case (Cons c1 t1)
  note t = this
  show "decode3 b0 t = (r, w) \<Longrightarrow> ?thesis"
  proof (cases t1)
    case Nil
    with t show "decode3 b0 t = (r, w) \<Longrightarrow> ?thesis" by (auto simp add: decode3_def)
  next
    case (Cons c2 t2)
    with t show "decode3 b0 t = (r, w) \<Longrightarrow> ?thesis"
      by (auto simp add: decode3_def Let_def contChar_def split: if_splits)
  qed
qed

lemma decode4_width: "decode4 b0 t = (r, w) \<Longrightarrow> 0 < w \<and> w - 1 \<le> length (takeWhile contChar t)"
proof (cases t)
  case Nil
  then show "decode4 b0 t = (r, w) \<Longrightarrow> ?thesis" by (auto simp add: decode4_def)
next
  case (Cons c1 t1)
  note t = this
  show "decode4 b0 t = (r, w) \<Longrightarrow> ?thesis"
  proof (cases t1)
    case Nil
    with t show "decode4 b0 t = (r, w) \<Longrightarrow> ?thesis" by (auto simp add: decode4_def)
  next
    case (Cons c2 t2)
    note t1 = this
    show "decode4 b0 t = (r, w) \<Longrightarrow> ?thesis"
    proof (cases t2)
      case Nil
      with t t1 show "decode4 b0 t = (r, w) \<Longrightarrow> ?thesis" by (auto simp add: decode4_def)
    next
      case (Cons c3 t3)
      with t t1 show "decode4 b0 t = (r, w) \<Longrightarrow> ?thesis"
        by (auto simp add: decode4_def Let_def contChar_def split: if_splits)
    qed
  qed
qed

lemma decoderune_width:
  "decoderune (c # cs) = (r, w) \<Longrightarrow> 0 < w \<and> w - 1 \<le> length (takeWhile contChar cs)"
  by (auto simp add: decoderune_def Let_def dest: decode2_width decode3_width decode4_width
      split: if_splits)

lemma decoderune_cont_prefix:
  assumes "takeWhile contChar q = takeWhile contChar q'"
  shows "decoderune (c # q) = decoderune (c # q')"
proof -
  have a: "\<And>t. decoderune (c # t) = decoderune (c # takeWhile contChar t)"
  proof -
    fix t
    obtain r w where d: "decoderune (c # t) = (r, w)" by (cases "decoderune (c # t)")
    from decoderune_width [OF d] have "w - 1 \<le> length (takeWhile contChar t)" by simp
    from decoderune_take [OF d this] d
    show "decoderune (c # t) = decoderune (c # takeWhile contChar t)"
      by (simp add: takeWhile_eq_take [symmetric])
  qed
  show ?thesis using a [of q] a [of q'] assms by simp
qed

lemma decoderune_cont_first:
  "contChar c \<Longrightarrow> decoderune (c # cs) = (RuneError, 1)"
  by (simp add: decoderune_def Let_def contChar_def contByte_def)

lemma RuneError_not_space: "\<not> IsSpace RuneError"
  by (simp add: IsSpace_def RuneError_def)

lemma space_rune_first_byte:
  "decoderune (c # cs) = (r, w) \<Longrightarrow> IsSpace r \<Longrightarrow> \<not> contChar c"
  using decoderune_cont_first [of c cs] RuneError_not_space by auto

lemma takeWhile_append_cong:
  "takeWhile P ys = takeWhile P zs \<Longrightarrow> takeWhile P (xs @ ys) = takeWhile P (xs @ zs)"
  by (induction xs) simp_all

lemma collapseRunes_cont_prefix:
  assumes "\<forall>x \<in> set rs. snd x \<noteq> [] \<and> (spaceRune x \<longrightarrow> \<not> contChar (hd (snd x)))"
  shows "takeWhile contChar (concat (map snd (collapseRunes rs))) =
         takeWhile contChar (concat (map snd rs))"
  using assms
proof (induction rs)
  case Nil
  show ?case by simp
next
  case (Cons x rs)
  have ih: "takeWhile contChar (concat (map snd (collapseRunes rs))) =
         takeWhile contChar (concat (map snd rs))"
    using Cons by simp
  show ?case
  proof (cases "spaceRune x")
    case False
    show ?thesis
      unfolding collapseRunes_nonspace [OF False]
      using takeWhile_append_cong [OF ih, of "snd x"] by simp
  next
    case True
    obtain b bs where x: "snd x = b # bs" and nb: "\<not> contChar b"
      using Cons.prems True by (cases "snd x") auto
    have rhs: "takeWhile contChar (concat (map snd (x # rs))) = []"
      using x nb by simp
    show ?thesis
    proof (cases rs)
      case Nil
      show ?thesis unfolding rhs unfolding Nil collapseRunes_space_Nil [OF True] by simp
    next
      case (Cons y rs')
      show ?thesis
      proof (cases "spaceRune y")
        case False
        show ?thesis
          unfolding rhs unfolding Cons collapseRunes_space [OF True]
          using False by (simp add: contChar_def contByte_def)
      next
        case sy: True
        obtain c cs where y: "snd y = c # cs" and nc: "\<not> contChar c"
          using Cons.prems sy unfolding Cons by (cases "snd y") auto
        have "takeWhile contChar (concat (map snd (collapseRunes (y # rs')))) = []"
          using ih unfolding Cons using y nc by simp
        then show ?thesis
          unfolding rhs unfolding Cons collapseRunes_space [OF True] using sy by simp
      qed
    qed
  qed
qed

lemma stringRunes_wellformed:
  "\<forall>x \<in> set (stringRunes s). snd x \<noteq> [] \<and> (spaceRune x \<longrightarrow> \<not> contChar (hd (snd x)))"
proof (induction s rule: stringRunes.induct)
  case 1
  show ?case by simp
next
  case (2 c cs)
  obtain r w where d: "decoderune (c # cs) = (r, w)" by (cases "decoderune (c # cs)")
  have ih: "\<forall>x \<in> set (stringRunes (drop (w - 1) cs)).
              snd x \<noteq> [] \<and> (spaceRune x \<longrightarrow> \<not> contChar (hd (snd x)))"
    using 2 [OF d [symmetric]] by simp
  have "IsSpace r \<longrightarrow> \<not> contChar c" using space_rune_first_byte [OF d] by blast
  with ih d show ?case by (simp add: spaceRune_def)
qed

lemma stringRunes_collapseRunes:
  "stringRunes (concat (map snd (collapseRunes (stringRunes s)))) = collapseRunes (stringRunes s)"
proof (induction s rule: stringRunes.induct)
  case 1
  show ?case by simp
next
  case (2 c cs)
  obtain r w where d: "decoderune (c # cs) = (r, w)" by (cases "decoderune (c # cs)")
  let ?x = "(r, c # take (w - 1) cs)"
  let ?rest = "stringRunes (drop (w - 1) cs)"
  have sr: "stringRunes (c # cs) = ?x # ?rest" using d by simp
  have ih: "stringRunes (concat (map snd (collapseRunes ?rest))) = collapseRunes ?rest"
    using 2 [OF d [symmetric]] by simp
  show ?case
  proof (cases "spaceRune ?x")
    case True
    show ?thesis
    proof (cases ?rest)
      case Nil
      show ?thesis unfolding sr unfolding Nil collapseRunes_space_Nil [OF True] by simp
    next
      case (Cons y rs')
      have ih': "stringRunes (concat (map snd (collapseRunes (y # rs')))) = collapseRunes (y # rs')"
        using ih unfolding Cons .
      show ?thesis
        unfolding sr unfolding Cons collapseRunes_space [OF True]
        using ih' by (simp add: stringRunes_ascii del: stringRunes.simps(2))
    qed
  next
    case False
    let ?Y = "concat (map snd (collapseRunes ?rest))"
    have wl: "w - 1 \<le> length cs"
      using decoderune_width [OF d] length_takeWhile_le [of contChar cs] by linarith
    have "takeWhile contChar ?Y = takeWhile contChar (concat (map snd ?rest))"
      by (rule collapseRunes_cont_prefix [OF stringRunes_wellformed])
    then have "takeWhile contChar ?Y = takeWhile contChar (drop (w - 1) cs)"
      by (simp add: stringRunes_bytes)
    then have "takeWhile contChar (take (w - 1) cs @ ?Y) =
               takeWhile contChar (take (w - 1) cs @ drop (w - 1) cs)"
      by (rule takeWhile_append_cong)
    then have "decoderune (c # take (w - 1) cs @ ?Y) = decoderune (c # cs)"
      using decoderune_cont_prefix [of "take (w - 1) cs @ ?Y" "take (w - 1) cs @ drop (w - 1) cs" c]
      by simp
    with d have d': "decoderune (c # take (w - 1) cs @ ?Y) = (r, w)" by simp
    have "stringRunes ((c # take (w - 1) cs) @ ?Y) = ?x # stringRunes ?Y"
      using d' wl by simp
    then show ?thesis
      unfolding sr collapseRunes_nonspace [OF False] using ih by simp
  qed
qed

lemma collapseRunes_last:
  "collapseRunes rs \<noteq> [] \<Longrightarrow> \<not> spaceRune (last (collapseRunes rs))"
proof (induction rs)
  case Nil
  then show ?case by simp
next
  case (Cons x rs)
  show ?case
  proof (cases "spaceRune x")
    case False
    with Cons show ?thesis by (simp add: collapseRunes_nonspace)
  next
    case True
    show ?thesis
    proof (cases rs)
      case Nil
      with Cons.prems True show ?thesis by (simp add: collapseRunes_space_Nil)
    next
      case (Cons y rs')
      show ?thesis
      proof (cases "spaceRune y")
        case sy: True
        with Cons.IH Cons.prems True Cons show ?thesis by (simp add: collapseRunes_space)
      next
        case False
        then have ne: "collapseRunes (y # rs') \<noteq> []" by (simp add: collapseRunes_nonspace)
        with Cons.IH Cons have "\<not> spaceRune (last (collapseRunes (y # rs')))" by simp
        with ne False True Cons show ?thesis by (simp add: collapseRunes_space)
      qed
    qed
  qed
qed

lemma collapseRunes_dropWhile_hd:
  "dropWhile spaceRune (collapseRunes (dropWhile spaceRune rs)) = collapseRunes (dropWhile spaceRune rs)"
proof (cases "dropWhile spaceRune rs")
  case Nil
  show ?thesis unfolding Nil by simp
next
  case (Cons x rs')
  then have "\<not> spaceRune x" using hd_dropWhile [of spaceRune rs] by auto
  then show ?thesis unfolding Cons by (simp add: collapseRunes_nonspace)
qed

lemma trimRunes_collapseRunes:
  "trimRunes (collapseRunes (dropWhile spaceRune rs)) = collapseRunes (dropWhile spaceRune rs)"
proof -
  let ?zs = "collapseRunes (dropWhile spaceRune rs)"
  have "rev (dropWhile spaceRune (rev ?zs)) = ?zs"
  proof (cases "?zs = []")
    case True
    then show ?thesis by simp
  next
    case False
    then have "\<not> spaceRune (last ?zs)" by (rule collapseRunes_last)
    then have "\<not> spaceRune (hd (rev ?zs))" using False by (simp add: hd_rev)
    moreover have "rev ?zs \<noteq> []" using False by simp
    ultimately have "dropWhile spaceRune (rev ?zs) = rev ?zs" by (cases "rev ?zs") auto
    then show ?thesis by simp
  qed
  then show ?thesis unfolding trimRunes_def collapseRunes_dropWhile_hd .
qed

lemma stringRunes_normalizeValue:
  "stringRunes (normalizeValue_spec v) = collapseRunes (dropWhile spaceRune (stringRunes v))"
proof -
  obtain s1 where s1: "dropWhile spaceRune (stringRunes v) = stringRunes s1"
    using stringRunes_drop [of "length (takeWhile spaceRune (stringRunes v))" v]
    by (auto simp add: dropWhile_eq_drop)
  show ?thesis
    unfolding normalizeValue_spec_def collapseRuns_spec_bytes s1
    by (rule stringRunes_collapseRunes)
qed

lemma TrimSpace_normalizeValue: "TrimSpace (normalizeValue_spec v) = normalizeValue_spec v"
  unfolding TrimSpace_def stringRunes_normalizeValue trimRunes_collapseRunes
  unfolding normalizeValue_spec_def collapseRuns_spec_bytes by (rule refl)

section \<open>The scenarios of the specification\<close>

lemmas time_eval = Format_20060102T150405Z_def Format_20060102_def exampleTime_def appendInt_def
  decimal_small decimal_big digitChar_def Let_def

lemmas uri_eval = uriEncode_def uriEncodeRune_def runeString_def stringRunes_ascii fmt02X_def
  hexUpper_small hexUpper_big hexDigitUpper_def char_of_def bit_0 Let_def

lemma scenario_A:
  "host (signWith exampleLib exampleSigner exampleTime ''test-bucket''
       ''inputs/2024-01-16/14-30-00/file.txt'' [] [] 180000000000)
     = ''test-bucket.s3.us-east-1.amazonaws.com''
   \<and> signedHeaders (signWith exampleLib exampleSigner exampleTime ''test-bucket''
       ''inputs/2024-01-16/14-30-00/file.txt'' [] [] 180000000000) = ''host''
   \<and> mapIndex (signedQueryParams (signWith exampleLib exampleSigner exampleTime ''test-bucket''
       ''inputs/2024-01-16/14-30-00/file.txt'' [] [] 180000000000)) ''X-Amz-Expires'' = ''180''
   \<and> canonicalQueryString (signWith exampleLib exampleSigner exampleTime ''test-bucket''
       ''inputs/2024-01-16/14-30-00/file.txt'' [] [] 180000000000)
     = ''X-Amz-Algorithm=AWS4-HMAC-SHA256&X-Amz-Credential=AKIDEXAMPLE%2F20240116%2Fus-east-1%2Fs3%2Faws4_request&X-Amz-Date=20240116T143000Z&X-Amz-Expires=180&X-Amz-SignedHeaders=host''"
proof -
  let ?l = "signWith exampleLib exampleSigner exampleTime ''test-bucket''
       ''inputs/2024-01-16/14-30-00/file.txt'' [] [] 180000000000"
  have h: "host ?l = ''test-bucket.s3.us-east-1.amazonaws.com''"
    unfolding sw_host by (simp add: exampleSigner_def NewAWSSigner_def)
  have sh: "signedHeaders ?l = ''host''"
    unfolding sw_signedHeaders sw_headerKeys sw_headers by simp
  have qp: "queryParams ?l =
      [(''X-Amz-Algorithm'', ''AWS4-HMAC-SHA256''),
       (''X-Amz-Credential'', ''AKIDEXAMPLE/20240116/us-east-1/s3/aws4_request''),
       (''X-Amz-Date'', ''20240116T143000Z''),
       (''X-Amz-Expires'', ''180''),
       (''X-Amz-SignedHeaders'', ''host'')]"
    unfolding sw_queryParams sh sw_dateStamp sw_amzDate
    by (simp add: exampleSigner_def NewAWSSigner_def exampleLib_def fmtD_def time_eval)
  have ex: "mapIndex (signedQueryParams ?l) ''X-Amz-Expires'' = ''180''"
    unfolding sw_signedQueryParams qp mapIndex_def update_conv' by simp
  have cq: "canonicalQueryString ?l
     = ''X-Amz-Algorithm=AWS4-HMAC-SHA256&X-Amz-Credential=AKIDEXAMPLE%2F20240116%2Fus-east-1%2Fs3%2Faws4_request&X-Amz-Date=20240116T143000Z&X-Amz-Expires=180&X-Amz-SignedHeaders=host''"
    unfolding sw_canonicalQueryString qp buildCanonicalQueryString_def Let_def fold_snoc_map mapIndex_def
    by (simp add: uri_eval del: stringRunes.simps(2))
  from h sh ex cq show ?thesis by blast
qed

lemma scenario_B:
  "signedHeaders (signWith exampleLib exampleSigner exampleTime ''test-bucket'' ''file.txt'' []
     [(''language'', ''es''), (''instructions'', ''ocr'')] 180000000000)
   = ''host;x-amz-meta-instructions;x-amz-meta-language''"
  unfolding sw_signedHeaders sw_headerKeys sw_headers metaHeaderKey_spec metaHeaderValue_spec
  by (simp add: string_eval del: stringRunes.simps(2))

lemma scenario_E:
  "amzDate (signWith L s exampleTime b k ct md e) = ''20240116T143000Z'' \<and>
   amzDate (signWith L s (exampleTime\<lparr>Second := 1\<rparr>) b k ct md e) = ''20240116T143001Z'' \<and>
   canonicalURI (signWith L s exampleTime b k ct md e) =
   canonicalURI (signWith L s (exampleTime\<lparr>Second := 1\<rparr>) b k ct md e)"
  unfolding sw_amzDate sw_canonicalURI by (simp add: time_eval)

section \<open>The two query-string builders\<close>

lemma runeString_slash: "(runeString r = ''/'') = (r = 0x2F)"
proof (cases "r < 0x80")
  case True
  then have "runeString r = [char_of r]" by (simp add: runeString_def)
  moreover have "(char_of r = CHR ''/'') = (r = 0x2F)"
    using True by (simp add: char_of_eq_iff take_bit_eq_mod)
  ultimately show ?thesis by simp
next
  case False
  then show ?thesis by (simp add: runeString_def)
qed

lemma uriEncodeRune_slash:
  "uriEncodeRune False r = (if r = 0x2F then ''/'' else uriEncodeRune True r) \<and>
   uriEncodeRune True 0x2F = ''%2F''"
proof -
  have a: "uriEncodeRune True 0x2F = ''%2F''"
    by (simp add: uriEncodeRune_def runeString_def fmt02X_def hexUpper_small hexUpper_big
        hexDigitUpper_def Let_def char_of_def bit_0)
  have s: "runeString 0x2F = ''/''" using runeString_slash [of "0x2F"] by simp
  have b: "uriEncodeRune False r = (if r = 0x2F then ''/'' else uriEncodeRune True r)"
  proof (cases "r = 0x2F")
    case True
    show ?thesis unfolding True uriEncodeRune_def Let_def s by simp
  next
    case False
    then show ?thesis unfolding uriEncodeRune_def Let_def runeString_slash by simp
  qed
  from a b show ?thesis by blast
qed

lemma buildQueryString_forms:
  "buildCanonicalQueryString params =
      Join (map (\<lambda>k. uriEncode k True @ ''='' @ uriEncode (mapIndex params k) True)
              (sort (map fst params))) ''&''
   \<and> buildFinalQueryString params =
      Join (map (\<lambda>k. uriEncode k True @ ''='' @
                     uriEncode (mapIndex params k) (k \<noteq> ''X-Amz-Credential''))
              (sort (map fst params))) ''&''"
proof -
  have part: "\<And>k. (if k = ''X-Amz-Credential''
                 then uriEncode (mapIndex params k) False
                 else uriEncode (mapIndex params k) True)
              = uriEncode (mapIndex params k) (k \<noteq> ''X-Amz-Credential'')"
    by simp
  show ?thesis
    unfolding buildCanonicalQueryString_def buildFinalQueryString_def Let_def part fold_snoc_map
    by simp
qed

lemma final_equals_canonical_without_credential:
  assumes "''X-Amz-Credential'' \<notin> fst ` set params"
  shows "buildFinalQueryString params = buildCanonicalQueryString params"
proof -
  have "map (\<lambda>k. uriEncode k True @ ''='' @ uriEncode (mapIndex params k) (k \<noteq> ''X-Amz-Credential''))
          (sort (map fst params))
      = map (\<lambda>k. uriEncode k True @ ''='' @ uriEncode (mapIndex params k) True) (sort (map fst params))"
  proof (rule map_cong [OF refl])
    fix k assume "k \<in> set (sort (map fst params))"
    then have "k \<in> fst ` set params" by simp
    with assms have "k \<noteq> ''X-Amz-Credential''" by blast
    then show "uriEncode k True @ ''='' @ uriEncode (mapIndex params k) (k \<noteq> ''X-Amz-Credential'')
        = uriEncode k True @ ''='' @ uriEncode (mapIndex params k) True" by simp
  qed
  then show ?thesis
    using buildQueryString_forms [of params] by presburger
qed

lemma final_query_example:
  "buildFinalQueryString
     [(''X-Amz-Credential'', ''AKIDEXAMPLE/20240116/us-east-1/s3/aws4_request''),
      (''X-Amz-Algorithm'', ''AWS4-HMAC-SHA256''),
      (''X-Amz-SignedHeaders'', ''host;x-amz-meta-language'')]
   = ''X-Amz-Algorithm=AWS4-HMAC-SHA256&X-Amz-Credential=AKIDEXAMPLE/20240116/us-east-1/s3/aws4_request&X-Amz-SignedHeaders=host%3Bx-amz-meta-language''"
  unfolding buildFinalQueryString_def Let_def fold_snoc_map mapIndex_def
  by (simp add: uri_eval del: stringRunes.simps(2))

section \<open>A metadata key outside ASCII\<close>

text \<open>
  A metadata key made of the letter e with an acute accent reaches \<^verbatim>\<open>uriEncode\<close> inside
  the signed-header list, where its two bytes are escaped as the single code point.
\<close>

lemma stringRunes_e_acute:
  "stringRunes (CHR 0xC3 # CHR 0xA9 # cs) = (0xE9, [CHR 0xC3, CHR 0xA9]) # stringRunes cs"
  by (simp add: decoderune_def decode2_def contByte_def Let_def)

lemma non_ascii_metadata_key:
  "signedHeaders (signWith exampleLib exampleSigner exampleTime ''test-bucket'' ''file.txt'' []
      [([CHR 0xC3, CHR 0xA9], ''x'')] 180000000000) = ''host;x-amz-meta-'' @ [CHR 0xC3, CHR 0xA9]
   \<and> uriEncode (''host;x-amz-meta-'' @ [CHR 0xC3, CHR 0xA9]) True = ''host%3Bx-amz-meta-%E9''"
proof -
  have k: "normalizeKey_spec exampleLib [CHR 0xC3, CHR 0xA9] = [CHR 0xC3, CHR 0xA9]"
    unfolding normalizeKey_spec_def ReplaceAllByte_def ToLower_def
    by (simp add: stringRunes_e_acute unicode_ToLower_def exampleLib_def runeString_def
        char_of_def bit_0 del: stringRunes.simps(2))
  have a: "signedHeaders (signWith exampleLib exampleSigner exampleTime ''test-bucket'' ''file.txt'' []
      [([CHR 0xC3, CHR 0xA9], ''x'')] 180000000000) = ''host;x-amz-meta-'' @ [CHR 0xC3, CHR 0xA9]"
    unfolding sw_signedHeaders sw_headerKeys sw_headers metaHeaderKey_spec
    by (simp add: k)
  have b: "uriEncode (''host;x-amz-meta-'' @ [CHR 0xC3, CHR 0xA9]) True = ''host%3Bx-amz-meta-%E9''"
    by (simp add: uri_eval stringRunes_e_acute del: stringRunes.simps(2))
  from a b show ?thesis by blast
qed

section \<open>Colliding metadata keys and the order of the entries\<close>

text \<open>
  The header map after the loop holds, under each name, the value of the last entry visited
  with that name. When no two keys share a name the map, and with it the URL, is the same
  for every visiting order; when two keys collide and the digest and the MAC are injective,
  two URLs are equal only if their header blocks are.
\<close>

lemma fold_update_last:
  "map_of (fold (\<lambda>(k, v) hs. AList.update (f k) (g v) hs) md init) x =
     (case find (\<lambda>p. f (fst p) = x) (rev md) of
        None \<Rightarrow> map_of init x
      | Some p \<Rightarrow> Some (g (snd p)))"
proof (induction md rule: rev_induct)
  case Nil
  show ?case by simp
next
  case (snoc p md)
  obtain k v where p: "p = (k, v)" by (cases p)
  show ?case using snoc by (simp add: p update_conv')
qed

lemma find_Some_member: "find P xs = Some p \<Longrightarrow> p \<in> set xs \<and> P p"
  by (induction xs) (auto split: if_splits)

lemma metaHeaderKey_eq_iff:
  "(metaHeaderKey L k' = metaHeaderKey L k) = (normalizeKey_spec L k' = normalizeKey_spec L k)"
  by (simp add: metaHeaderKey_spec)

lemma hexDigitLower_unreserved:
  assumes "d < 16"
  shows "of_char (hexDigitLower d) < (128::nat) \<and> unreservedByte (hexDigitLower d)"
proof -
  have len: "length ''0123456789abcdef'' = 16" by simp
  have "hexDigitLower d \<in> set ''0123456789abcdef''"
    unfolding hexDigitLower_def by (rule nth_mem) (simp only: len assms)
  moreover have "\<forall>c \<in> set ''0123456789abcdef''. of_char c < (128::nat) \<and> unreservedByte c"
    by (simp add: unreservedByte_def)
  ultimately show ?thesis by blast
qed

lemma hexDigitLower_inj:
  assumes "d < 16" and "d' < 16"
  shows "(hexDigitLower d = hexDigitLower d') = (d = d')"
proof -
  have len: "length ''0123456789abcdef'' = 16" by simp
  have dis: "distinct ''0123456789abcdef''" by simp
  show ?thesis
    unfolding hexDigitLower_def
    by (rule nth_eq_iff_index_eq [OF dis]) (simp_all only: len assms)
qed

lemma uriEncode_unreserved:
  "list_all (\<lambda>c. of_char c < (128::nat) \<and> unreservedByte c) t \<Longrightarrow> uriEncode t e = t"
proof -
  assume a: "list_all (\<lambda>c. of_char c < (128::nat) \<and> unreservedByte c) t"
  then have "list_all (\<lambda>c. of_char c < (128::nat)) t" by (induction t) simp_all
  then have "uriEncode t e = uriEncode_spec t e" by (rule uriEncode_ascii)
  also have "\<dots> = t" using a by (induction t) (simp_all add: uriEncode_spec_def uriEncodeByte_spec_def)
  finally show ?thesis .
qed

lemma byte_div16: "(of_char c :: nat) div 16 < 16"
  using nat_of_char_less_256 [of c] by arith

lemma EncodeToString_unreserved:
  "list_all (\<lambda>c. of_char c < (128::nat) \<and> unreservedByte c) (EncodeToString x)"
proof (induction x)
  case Nil
  show ?case by (simp add: EncodeToString_def)
next
  case (Cons c x)
  have a: "(of_char c :: nat) div 16 < 16" by (rule byte_div16)
  have b: "(of_char c :: nat) mod 16 < 16" by simp
  from Cons hexDigitLower_unreserved [OF a] hexDigitLower_unreserved [OF b]
  show ?case by (simp add: EncodeToString_def)
qed

lemma uriEncode_hex: "uriEncode (EncodeToString x) e = EncodeToString x"
  by (rule uriEncode_unreserved [OF EncodeToString_unreserved])

lemma EncodeToString_inj: "EncodeToString x = EncodeToString y \<Longrightarrow> x = y"
proof (induction x arbitrary: y)
  case Nil
  then show ?case by (cases y) (simp_all add: EncodeToString_def)
next
  case (Cons c x)
  show ?case
  proof (cases y)
    case Nil
    with Cons.prems show ?thesis by (simp add: EncodeToString_def)
  next
    case (Cons c' y')
    let ?b = "of_char c :: nat" and ?b' = "of_char c' :: nat"
    have a: "?b div 16 < 16" "?b' div 16 < 16"
      by (rule byte_div16)+
    have m: "?b mod 16 < 16" "?b' mod 16 < 16" by simp_all
    from Cons.prems Cons have h: "hexDigitLower (?b div 16) = hexDigitLower (?b' div 16)"
      "hexDigitLower (?b mod 16) = hexDigitLower (?b' mod 16)"
      and t: "EncodeToString x = EncodeToString y'"
      by (simp_all add: EncodeToString_def)
    from h have "?b div 16 = ?b' div 16" "?b mod 16 = ?b' mod 16"
      using hexDigitLower_inj [OF a] hexDigitLower_inj [OF m] by simp_all
    then have "?b = ?b'" by (metis div_mult_mod_eq)
    then have "c = c'" by simp
    with Cons.IH [OF t] Cons show ?thesis by simp
  qed
qed

lemma find_None_all: "(find P xs = None) = (\<forall>p \<in> set xs. \<not> P p)"
  by (induction xs) auto

lemma fold_update_map_of_order:
  assumes "set md' = set md"
    and "\<forall>p \<in> set md. \<forall>q \<in> set md. f (fst p) = f (fst q) \<longrightarrow> g (snd p) = g (snd q)"
  shows "map_of (fold (\<lambda>(k, v) hs. AList.update (f k) (g v) hs) md' init) =
         map_of (fold (\<lambda>(k, v) hs. AList.update (f k) (g v) hs) md init)"
proof
  fix x
  let ?P = "\<lambda>p. f (fst p) = x"
  have "(case find ?P (rev md') of None \<Rightarrow> map_of init x | Some p \<Rightarrow> Some (g (snd p))) =
        (case find ?P (rev md) of None \<Rightarrow> map_of init x | Some p \<Rightarrow> Some (g (snd p)))"
  proof (cases "find ?P (rev md)")
    case None
    then have "\<forall>p \<in> set (rev md). \<not> ?P p" unfolding find_None_all .
    then have "\<forall>p \<in> set (rev md'). \<not> ?P p" using assms(1) by simp
    then have "find ?P (rev md') = None" unfolding find_None_all .
    with None show ?thesis by simp
  next
    case (Some p)
    from find_Some_member [OF Some] have p: "p \<in> set md" "?P p" by simp_all
    then have "\<not> (\<forall>q \<in> set (rev md'). \<not> ?P q)" using assms(1) by auto
    then have "find ?P (rev md') \<noteq> None" unfolding find_None_all .
    then obtain q where q: "find ?P (rev md') = Some q" by blast
    from find_Some_member [OF q] have "q \<in> set md" "?P q" using assms(1) by simp_all
    with p assms(2) have "g (snd q) = g (snd p)" by metis
    with Some q show ?thesis by simp
  qed
  then show "map_of (fold (\<lambda>(k, v) hs. AList.update (f k) (g v) hs) md' init) x =
         map_of (fold (\<lambda>(k, v) hs. AList.update (f k) (g v) hs) md init) x"
    unfolding fold_update_last .
qed

lemma presignedURL_order:
  assumes "set md' = set md"
    and "\<forall>(k, v) \<in> set md. \<forall>(k', v') \<in> set md.
           normalizeKey_spec L k = normalizeKey_spec L k' \<longrightarrow> (k, v) = (k', v')"
  shows "presignedURL (signWith L s now bucket key ct1 md e) =
         presignedURL (signWith L s now bucket key ct2 md' e)"
proof -
  let ?l = "signWith L s now bucket key ct1 md e"
  let ?l' = "signWith L s now bucket key ct2 md' e"
  have nc: "\<forall>p \<in> set md. \<forall>q \<in> set md. metaHeaderKey L (fst p) = metaHeaderKey L (fst q) \<longrightarrow>
              metaHeaderValue (snd p) = metaHeaderValue (snd q)"
    using assms(2) unfolding metaHeaderKey_eq_iff by fastforce
  have h: "host ?l' = host ?l" unfolding sw_host by (rule refl)
  have m: "map_of (headers ?l') = map_of (headers ?l)"
    unfolding sw_headers h by (rule fold_update_map_of_order [OF assms(1) nc])
  have mi: "\<And>k. mapIndex (headers ?l') k = mapIndex (headers ?l) k"
    unfolding mapIndex_def m by (rule refl)
  have d: "distinct (map fst (headers ?l))" "distinct (map fst (headers ?l'))"
    unfolding sw_headers by (rule fold_update_distinct, simp)+
  have "fst ` set (headers ?l') = fst ` set (headers ?l)"
    unfolding sw_headers fold_update_keys h assms(1) by (rule refl)
  then have "set (map fst (headers ?l')) = set (map fst (headers ?l))" by simp
  then have hk: "headerKeys ?l' = headerKeys ?l"
    unfolding sw_headerKeys by (rule sort_any_order [OF d(2) d(1)])
  have ch: "canonicalHeaders ?l' = canonicalHeaders ?l"
    unfolding sw_canonicalHeaders hk mi by (rule refl)
  have sh: "signedHeaders ?l' = signedHeaders ?l"
    unfolding sw_signedHeaders hk by (rule refl)
  have ds: "dateStamp ?l' = dateStamp ?l" unfolding sw_dateStamp by (rule refl)
  have ad: "amzDate ?l' = amzDate ?l" unfolding sw_amzDate by (rule refl)
  have qp: "queryParams ?l' = queryParams ?l"
    unfolding sw_queryParams sh ds ad by (rule refl)
  have cq: "canonicalQueryString ?l' = canonicalQueryString ?l"
    unfolding sw_canonicalQueryString qp by (rule refl)
  have cu: "canonicalURI ?l' = canonicalURI ?l" unfolding sw_canonicalURI by (rule refl)
  have ph: "payloadHash ?l' = payloadHash ?l" unfolding sw_payloadHash by (rule refl)
  have cr: "canonicalRequest ?l' = canonicalRequest ?l"
    unfolding sw_canonicalRequest cu cq ch sh ph by (rule refl)
  have cs: "credentialScope ?l' = credentialScope ?l"
    unfolding sw_credentialScope ds by (rule refl)
  have ss: "stringToSign ?l' = stringToSign ?l"
    unfolding sw_stringToSign ad cs cr by (rule refl)
  have sk: "signingKey ?l' = signingKey ?l" unfolding sw_signingKey ds by (rule refl)
  have sg: "signature ?l' = signature ?l" unfolding sw_signature sk ss by (rule refl)
  have sq: "signedQueryParams ?l' = signedQueryParams ?l"
    unfolding sw_signedQueryParams sg qp by (rule refl)
  have fq: "finalQueryString ?l' = finalQueryString ?l"
    unfolding sw_finalQueryString sq by (rule refl)
  show ?thesis unfolding sw_presignedURL h cu fq by (rule refl)
qed

lemma final_query_signature:
  "buildFinalQueryString (AList.update ''X-Amz-Signature'' sig
      [(''X-Amz-Algorithm'', a), (''X-Amz-Credential'', c), (''X-Amz-Date'', d),
       (''X-Amz-Expires'', x), (''X-Amz-SignedHeaders'', h)]) =
   uriEncode ''X-Amz-Algorithm'' True @ ''='' @ uriEncode a True @ ''&'' @
   uriEncode ''X-Amz-Credential'' True @ ''='' @ uriEncode c False @ ''&'' @
   uriEncode ''X-Amz-Date'' True @ ''='' @ uriEncode d True @ ''&'' @
   uriEncode ''X-Amz-Expires'' True @ ''='' @ uriEncode x True @ ''&'' @
   uriEncode ''X-Amz-Signature'' True @ ''='' @ uriEncode sig True @ ''&'' @
   uriEncode ''X-Amz-SignedHeaders'' True @ ''='' @ uriEncode h True"
  by (simp add: buildQueryString_forms mapIndex_def)

lemma url_separates_headers:
  assumes injh: "inj (sha256Sum L)" and injm: "\<And>k. inj (hmacSum L k)"
    and sh: "signedHeaders (signWith L s now bucket key ct1 md1 e) =
             signedHeaders (signWith L s now bucket key ct2 md2 e)"
    and url: "presignedURL (signWith L s now bucket key ct1 md1 e) =
              presignedURL (signWith L s now bucket key ct2 md2 e)"
  shows "canonicalHeaders (signWith L s now bucket key ct1 md1 e) =
         canonicalHeaders (signWith L s now bucket key ct2 md2 e)"
proof -
  let ?l = "signWith L s now bucket key ct1 md1 e"
  let ?l' = "signWith L s now bucket key ct2 md2 e"
  have ds: "dateStamp ?l' = dateStamp ?l" unfolding sw_dateStamp by (rule refl)
  have ad: "amzDate ?l' = amzDate ?l" unfolding sw_amzDate by (rule refl)
  have cu: "canonicalURI ?l' = canonicalURI ?l" unfolding sw_canonicalURI by (rule refl)
  have qp: "queryParams ?l' = queryParams ?l"
    unfolding sw_queryParams sh ds ad by (rule refl)
  have cq: "canonicalQueryString ?l' = canonicalQueryString ?l"
    unfolding sw_canonicalQueryString qp by (rule refl)
  have cs: "credentialScope ?l' = credentialScope ?l"
    unfolding sw_credentialScope ds by (rule refl)
  have sk: "signingKey ?l' = signingKey ?l" unfolding sw_signingKey ds by (rule refl)
  from url have "finalQueryString ?l = finalQueryString ?l'"
    unfolding sw_presignedURL sw_host sw_canonicalURI by simp
  then have "uriEncode (signature ?l) True = uriEncode (signature ?l') True"
    unfolding sw_finalQueryString sw_signedQueryParams qp
    unfolding sw_queryParams final_query_signature by simp
  then have "hmacSum L (signingKey ?l) (stringToSign ?l) = hmacSum L (signingKey ?l) (stringToSign ?l')"
    unfolding sw_signature sk hmacSHA256Hex_def hmacSHA256_def uriEncode_hex
    by (rule EncodeToString_inj)
  then have "stringToSign ?l = stringToSign ?l'"
    using injm [of "signingKey ?l"] by (simp add: inj_eq)
  then have "hash L (canonicalRequest ?l) = hash L (canonicalRequest ?l')"
    unfolding sw_stringToSign ad cs by simp
  then have "sha256Sum L (canonicalRequest ?l) = sha256Sum L (canonicalRequest ?l')"
    unfolding hash_def by (rule EncodeToString_inj)
  then have "canonicalRequest ?l = canonicalRequest ?l'"
    using injh by (simp add: inj_eq)
  then show ?thesis
    unfolding sw_canonicalRequest cu cq sh sw_payloadHash by simp
qed

section \<open>The properties stated by the specification\<close>

text \<open>
  C1. The specification asks \<^verbatim>\<open>uriEncode\<close> to escape byte by byte, so that a multi-byte
  character becomes one \<^verbatim>\<open>%XX\<close> per byte of its UTF-8 form. The loop ranges over runes
  and formats the code point: on the two bytes \<^verbatim>\<open>C3 A9\<close> (the letter e with an acute
  accent) it returns \<^verbatim>\<open>%E9\<close>, where the byte-wise encoder returns \<^verbatim>\<open>%C3%A9\<close>. On
  input made of ASCII bytes only the two agree (\<open>uriEncode_ascii\<close>); a metadata key
  outside ASCII brings such bytes into the query string (\<open>non_ascii_metadata_key\<close>).
\<close>

theorem uriEncode_formats_code_point:
  "uriEncode [CHR 0xC3, CHR 0xA9] True = ''%E9'' \<and>
   uriEncode_spec [CHR 0xC3, CHR 0xA9] True = ''%C3%A9''"
  by (simp add: uriEncode_def uriEncodeRune_def runeString_def decoderune_def decode2_def
      contByte_def RuneError_def fmt02X_def hexUpper_small hexUpper_big hexDigitUpper_def
      uriEncode_spec_def uriEncodeByte_spec_def unreservedByte_def Let_def)

text \<open>
  C2. For every metadata mapping, in whatever order its entries are visited, the signed
  header list is the sorted, semicolon-joined set made of \<^verbatim>\<open>host\<close> and of one name
  \<^verbatim>\<open>x-amz-meta-\<close> followed by the normalised key for each metadata key; it is the value
  stored under \<^verbatim>\<open>X-Amz-SignedHeaders\<close>.
\<close>

theorem signedHeaders_sorted_header_set:
  "signedHeaders (signWith L s now bucket key ct md e) =
     Join (sorted_list_of_set
             (insert ''host'' ((\<lambda>k. ''x-amz-meta-'' @ normalizeKey_spec L k) ` fst ` set md))) '';''
   \<and> mapIndex (signedQueryParams (signWith L s now bucket key ct md e)) ''X-Amz-SignedHeaders'' =
       signedHeaders (signWith L s now bucket key ct md e)"
proof -
  let ?l = "signWith L s now bucket key ct md e"
  have d: "distinct (map fst (headers ?l))"
    unfolding sw_headers by (rule fold_update_distinct) simp
  have k: "set (map fst (headers ?l)) =
             insert ''host'' ((\<lambda>k. ''x-amz-meta-'' @ normalizeKey_spec L k) ` fst ` set md)"
    unfolding sw_headers set_map fold_update_keys
    by (auto simp add: metaHeaderKey_spec)
  have a: "signedHeaders ?l = Join (sorted_list_of_set (set (map fst (headers ?l)))) '';''"
    unfolding sw_signedHeaders sw_headerKeys sort_distinct [OF d] by (rule refl)
  have b: "mapIndex (signedQueryParams ?l) ''X-Amz-SignedHeaders'' = signedHeaders ?l"
    unfolding sw_signedQueryParams sw_queryParams mapIndex_def update_conv'
    by simp
  show ?thesis using a b unfolding k by simp
qed

text \<open>
  C3. For every metadata entry \<open>(k, v)\<close> the name \<^verbatim>\<open>x-amz-meta-\<close> followed by \<open>k\<close> with
  underscores turned into hyphens and lowercased is among the signed header keys, whatever
  the other entries are. The value signed under that name is the normalised value (trimmed,
  every inner run of white space collapsed to one space) of the last entry visited whose key
  normalises to the same name; the trimming applied when the header line is written leaves
  it as it is. So it is the normalised \<open>v\<close> provided no other metadata key normalises to the
  same name.
\<close>

theorem metadata_header_entry:
  assumes "(k, v) \<in> set md"
  shows "metaHeaderKey L k = ''x-amz-meta-'' @ normalizeKey_spec L k \<and>
         metaHeaderValue v = normalizeValue_spec v \<and>
         ''x-amz-meta-'' @ normalizeKey_spec L k \<in> set (headerKeys (signWith L s now bucket key ct md e)) \<and>
         (case find (\<lambda>p. normalizeKey_spec L (fst p) = normalizeKey_spec L k) (rev md) of
            None \<Rightarrow> False
          | Some p \<Rightarrow>
              p \<in> set md \<and>
              map_of (headers (signWith L s now bucket key ct md e))
                (''x-amz-meta-'' @ normalizeKey_spec L k) = Some (normalizeValue_spec (snd p)) \<and>
              TrimSpace (mapIndex (headers (signWith L s now bucket key ct md e))
                (''x-amz-meta-'' @ normalizeKey_spec L k)) = normalizeValue_spec (snd p)) \<and>
         ((\<forall>(k', v') \<in> set md. normalizeKey_spec L k' = normalizeKey_spec L k \<longrightarrow> (k', v') = (k, v)) \<longrightarrow>
            map_of (headers (signWith L s now bucket key ct md e))
              (''x-amz-meta-'' @ normalizeKey_spec L k) = Some (normalizeValue_spec v) \<and>
            TrimSpace (mapIndex (headers (signWith L s now bucket key ct md e))
              (''x-amz-meta-'' @ normalizeKey_spec L k)) = normalizeValue_spec v)"
proof -
  let ?l = "signWith L s now bucket key ct md e"
  let ?name = "''x-amz-meta-'' @ normalizeKey_spec L k"
  let ?P = "\<lambda>p. normalizeKey_spec L (fst p) = normalizeKey_spec L k"
  have ex: "\<exists>p \<in> set (rev md). ?P p" using assms by force
  then obtain p where f: "find ?P (rev md) = Some p"
    by (cases "find ?P (rev md)") (auto simp add: find_None_iff)
  from find_Some_member [OF f] have pin: "p \<in> set md" and pk: "?P p"
    by simp_all
  have "map_of (headers ?l) (metaHeaderKey L k) =
          (case find (\<lambda>p. metaHeaderKey L (fst p) = metaHeaderKey L k) (rev md) of
             None \<Rightarrow> map_of [(''host'', host ?l)] (metaHeaderKey L k)
           | Some p \<Rightarrow> Some (metaHeaderValue (snd p)))"
    unfolding sw_headers by (rule fold_update_last)
  then have m: "map_of (headers ?l) ?name = Some (normalizeValue_spec (snd p))"
    unfolding metaHeaderKey_eq_iff f by (simp add: metaHeaderKey_spec metaHeaderValue_spec)
  then have "?name \<in> fst ` set (headers ?l)"
    by (metis map_of_eq_None_iff option.distinct(1))
  then have hk: "?name \<in> set (headerKeys ?l)"
    unfolding sw_headerKeys by simp
  have t: "TrimSpace (mapIndex (headers ?l) ?name) = normalizeValue_spec (snd p)"
    unfolding mapIndex_def m by (simp add: TrimSpace_normalizeValue)
  have u: "(\<forall>(k', v') \<in> set md. normalizeKey_spec L k' = normalizeKey_spec L k \<longrightarrow> (k', v') = (k, v))
             \<longrightarrow> snd p = v"
    using pin pk by (cases p) auto
  have c: "(case find ?P (rev md) of
            None \<Rightarrow> False
          | Some p \<Rightarrow>
              p \<in> set md \<and>
              map_of (headers ?l) ?name = Some (normalizeValue_spec (snd p)) \<and>
              TrimSpace (mapIndex (headers ?l) ?name) = normalizeValue_spec (snd p))"
    unfolding f using pin m t by simp
  have d: "(\<forall>(k', v') \<in> set md. normalizeKey_spec L k' = normalizeKey_spec L k \<longrightarrow> (k', v') = (k, v)) \<longrightarrow>
            map_of (headers ?l) ?name = Some (normalizeValue_spec v) \<and>
            TrimSpace (mapIndex (headers ?l) ?name) = normalizeValue_spec v"
    using u m t by auto
  from hk c d show ?thesis
    by (simp add: metaHeaderKey_spec metaHeaderValue_spec)
qed

text \<open>
  The theorem at the key \<^verbatim>\<open>user_email\<close> with the value \<^verbatim>\<open>"  extra   spaces  "\<close>: the header
  \<^verbatim>\<open>x-amz-meta-user-email\<close> is signed and carries \<^verbatim>\<open>"extra spaces"\<close>.
\<close>

theorem metadata_header_entry_witness:
  "(''user_email'', ''  extra   spaces  '') \<in> set [(''user_email'', ''  extra   spaces  ''), (''language'', ''es'')]
   \<and> ''x-amz-meta-user-email'' \<in> set (headerKeys (signWith exampleLib exampleSigner exampleTime ''test-bucket'' ''file.txt'' []
               [(''user_email'', ''  extra   spaces  ''), (''language'', ''es'')] 180000000000))
   \<and> map_of (headers (signWith exampleLib exampleSigner exampleTime ''test-bucket'' ''file.txt'' []
               [(''user_email'', ''  extra   spaces  ''), (''language'', ''es'')] 180000000000))
        ''x-amz-meta-user-email'' = Some ''extra spaces''"
proof -
  have h1: "(''user_email'', ''  extra   spaces  '') \<in> set [(''user_email'', ''  extra   spaces  ''), (''language'', ''es'')]"
    by simp
  have h2: "\<forall>(k', v') \<in> set [(''user_email'', ''  extra   spaces  ''), (''language'', ''es'')].
       normalizeKey_spec exampleLib k' = normalizeKey_spec exampleLib ''user_email'' \<longrightarrow>
       (k', v') = (''user_email'', ''  extra   spaces  '')"
    by (simp add: string_eval)
  have n1: "normalizeKey_spec exampleLib ''user_email'' = ''user-email''"
    by (simp add: string_eval)
  have n2: "normalizeValue_spec ''  extra   spaces  '' = ''extra spaces''"
    by (simp add: string_eval del: stringRunes.simps(2))
  note th = metadata_header_entry [OF h1, where L = exampleLib and s = exampleSigner and now = exampleTime
      and bucket = "''test-bucket''" and key = "''file.txt''" and ct = "[]" and e = 180000000000]
  from th h2 have
    "''x-amz-meta-'' @ normalizeKey_spec exampleLib ''user_email'' \<in> set (headerKeys (signWith exampleLib exampleSigner exampleTime ''test-bucket'' ''file.txt'' []
               [(''user_email'', ''  extra   spaces  ''), (''language'', ''es'')] 180000000000))
     \<and> map_of (headers (signWith exampleLib exampleSigner exampleTime ''test-bucket'' ''file.txt'' []
               [(''user_email'', ''  extra   spaces  ''), (''language'', ''es'')] 180000000000))
        (''x-amz-meta-'' @ normalizeKey_spec exampleLib ''user_email'') = Some (normalizeValue_spec ''  extra   spaces  '')"
    by blast
  then show ?thesis using h1 unfolding n1 n2 by simp
qed

text \<open>
  Without the proviso the statement fails: with the keys \<^verbatim>\<open>a_b\<close> and \<^verbatim>\<open>a-b\<close> both
  present, the header \<^verbatim>\<open>x-amz-meta-a-b\<close> carries the value of the entry visited last, in
  either visiting order, and the other entry's value is not signed.
\<close>

theorem metadata_header_collision:
  "map_of (headers (signWith exampleLib exampleSigner exampleTime ''test-bucket'' ''file.txt'' []
             [(''a_b'', ''1''), (''a-b'', ''2'')] 180000000000))
     (''x-amz-meta-'' @ normalizeKey_spec exampleLib ''a_b'') = Some ''2''
   \<and> normalizeValue_spec ''1'' = ''1''
   \<and> map_of (headers (signWith exampleLib exampleSigner exampleTime ''test-bucket'' ''file.txt'' []
             [(''a-b'', ''2''), (''a_b'', ''1'')] 180000000000))
     (''x-amz-meta-'' @ normalizeKey_spec exampleLib ''a-b'') = Some ''1''
   \<and> normalizeValue_spec ''2'' = ''2''"
  unfolding sw_headers metaHeaderKey_spec metaHeaderValue_spec
  by (simp add: string_eval del: stringRunes.simps(2))

text \<open>
  C4. Both query-string builders sort the keys, encode every key with the slash escaped and
  join the \<^verbatim>\<open>k=v\<close> pairs with an ampersand. The canonical builder escapes the slash in
  every value; the final builder does so in every value but the one of
  \<^verbatim>\<open>X-Amz-Credential\<close>. The two results are the same expression up to that one flag, and
  the flag changes the encoding of a value only at its slashes: literal when it is off,
  \<^verbatim>\<open>%2F\<close> when it is on.
\<close>

theorem query_strings_differ_in_credential_only:
  "buildCanonicalQueryString params =
      Join (map (\<lambda>k. uriEncode k True @ ''='' @ uriEncode (mapIndex params k) True)
              (sort (map fst params))) ''&''
   \<and> buildFinalQueryString params =
      Join (map (\<lambda>k. uriEncode k True @ ''='' @
                     uriEncode (mapIndex params k) (k \<noteq> ''X-Amz-Credential''))
              (sort (map fst params))) ''&''
   \<and> uriEncode v False = concat (map (\<lambda>(r, bs). if r = 0x2F then ''/'' else uriEncodeRune True r) (stringRunes v))
   \<and> uriEncode v True = concat (map (\<lambda>(r, bs). if r = 0x2F then ''%2F'' else uriEncodeRune True r) (stringRunes v))"
proof -
  have f: "uriEncode v False = concat (map (\<lambda>(r, bs). if r = 0x2F then ''/'' else uriEncodeRune True r) (stringRunes v))"
    unfolding uriEncode_def using uriEncodeRune_slash by presburger
  have "(\<lambda>(r, bs). uriEncodeRune True r) = (\<lambda>(r :: nat, bs :: string). if r = 0x2F then ''%2F'' else uriEncodeRune True r)"
    using uriEncodeRune_slash by (auto simp add: fun_eq_iff)
  then have t: "uriEncode v True = concat (map (\<lambda>(r, bs). if r = 0x2F then ''%2F'' else uriEncodeRune True r) (stringRunes v))"
    unfolding uriEncode_def by simp
  from buildQueryString_forms [of params] f t show ?thesis by blast
qed

text \<open>
  C5. \<^verbatim>\<open>getSignatureKey\<close> returns the four-fold HMAC-SHA256 chain keyed by
  \<^verbatim>\<open>AWS4\<close> followed by the secret key, over the date stamp, the region, the service and
  \<^verbatim>\<open>aws4_request\<close>. The result is the raw output of the last HMAC (no hex encoding is
  applied) and a function of the four arguments only.
\<close>

theorem getSignatureKey_hmac_chain:
  "getSignatureKey L sk ds rg sv =
     hmacSum L (hmacSum L (hmacSum L (hmacSum L (''AWS4'' @ sk) ds) rg) sv) ''aws4_request''"
  by (simp add: getSignatureKey_def hmacSHA256_def Let_def)

text \<open>
  C6. The canonical request is the newline-join of six components: \<^verbatim>\<open>PUT\<close>, the slash
  followed by the key, the canonical query string, the header block (one \<^verbatim>\<open>name:value\<close>
  line per sorted header key, each followed by a newline), the signed-header list and the
  payload-hash token, which is the literal \<^verbatim>\<open>UNSIGNED-PAYLOAD\<close>. Its hash is the last line
  of the string to sign.
\<close>

theorem canonicalRequest_six_components:
  "(let l = signWith L s now bucket key ct md e in
     canonicalRequest l =
       Join [''PUT'', ''/'' @ key, canonicalQueryString l,
             concat (map (\<lambda>k. k @ '':'' @ TrimSpace (mapIndex (headers l) k) @ newline) (headerKeys l)),
             signedHeaders l, ''UNSIGNED-PAYLOAD''] newline
     \<and> payloadHash l = ''UNSIGNED-PAYLOAD''
     \<and> headerKeys l = sort (map fst (headers l))
     \<and> signedHeaders l = Join (headerKeys l) '';''
     \<and> canonicalQueryString l = buildCanonicalQueryString (queryParams l)
     \<and> stringToSign l =
         ''AWS4-HMAC-SHA256'' @ newline @ amzDate l @ newline @ credentialScope l @ newline @
         hash L (canonicalRequest l))"
proof -
  let ?l = "signWith L s now bucket key ct md e"
  have ne: "headerKeys ?l \<noteq> []"
    unfolding sw_headerKeys sort_eq_Nil using headers_nonempty [of L s now bucket key ct md e] by simp
  have ch: "canonicalHeaders ?l =
      concat (map (\<lambda>k. k @ '':'' @ TrimSpace (mapIndex (headers ?l) k) @ newline) (headerKeys ?l))"
    unfolding sw_canonicalHeaders Let_def fold_snoc_map
    using ne by (simp add: Join_terminated comp_def)
  have cr: "canonicalRequest ?l =
       Join [''PUT'', ''/'' @ key, canonicalQueryString ?l,
             concat (map (\<lambda>k. k @ '':'' @ TrimSpace (mapIndex (headers ?l) k) @ newline) (headerKeys ?l)),
             signedHeaders ?l, ''UNSIGNED-PAYLOAD''] newline"
    unfolding sw_canonicalRequest ch sw_canonicalURI sw_payloadHash by simp
  show ?thesis
    unfolding Let_def
    using cr sw_payloadHash [of L s now bucket key ct md e]
      sw_headerKeys [of L s now bucket key ct md e]
      sw_signedHeaders [of L s now bucket key ct md e]
      sw_canonicalQueryString [of L s now bucket key ct md e]
      sw_stringToSign [of L s now bucket key ct md e]
    by blast
qed

text \<open>
  C7. A call reads the clock once: the clock's counter advances by one and the URL is
  computed from that single reading. Both date strings are formatted from it, the long one
  is the short one followed by \<^verbatim>\<open>T\<close>, the time of day and \<^verbatim>\<open>Z\<close>, and they are what the
  parameters \<^verbatim>\<open>X-Amz-Date\<close> and \<^verbatim>\<open>X-Amz-Credential\<close> (and the credential scope) carry.
\<close>

theorem one_instant_for_both_dates:
  "(case GeneratePresignedPutURL L s c bucket key ct md e of
      ((url, err), c') \<Rightarrow>
        reads c' = Suc (reads c) \<and> readings c' = readings c \<and> err = None \<and>
        url = presignedURL (signWith L s (readings c (reads c)) bucket key ct md e))
   \<and> (let l = signWith L s now bucket key ct md e in
        amzDate l = Format_20060102T150405Z now \<and>
        dateStamp l = Format_20060102 now \<and>
        amzDate l = dateStamp l @ ''T'' @ appendInt (Hour now) 2 @ appendInt (Minute now) 2 @
                      appendInt (Second now) 2 @ ''Z'' \<and>
        mapIndex (signedQueryParams l) ''X-Amz-Date'' = amzDate l \<and>
        mapIndex (signedQueryParams l) ''X-Amz-Credential'' =
          accessKey s @ ''/'' @ dateStamp l @ ''/'' @ region s @ ''/'' @ service s @ ''/aws4_request'' \<and>
        credentialScope l = dateStamp l @ ''/'' @ region s @ ''/'' @ service s @ ''/aws4_request'')"
proof -
  let ?l = "signWith L s now bucket key ct md e"
  have a: "case GeneratePresignedPutURL L s c bucket key ct md e of
      ((url, err), c') \<Rightarrow>
        reads c' = Suc (reads c) \<and> readings c' = readings c \<and> err = None \<and>
        url = presignedURL (signWith L s (readings c (reads c)) bucket key ct md e)"
    unfolding GeneratePresignedPutURL_def time_Now_UTC_def by simp
  have b: "amzDate ?l = dateStamp ?l @ ''T'' @ appendInt (Hour now) 2 @ appendInt (Minute now) 2 @
                      appendInt (Second now) 2 @ ''Z''"
    unfolding sw_amzDate sw_dateStamp Format_20060102T150405Z_def Format_20060102_def by simp
  have d: "mapIndex (signedQueryParams ?l) ''X-Amz-Date'' = amzDate ?l"
    unfolding sw_signedQueryParams sw_queryParams mapIndex_def update_conv' by simp
  have cr: "mapIndex (signedQueryParams ?l) ''X-Amz-Credential'' =
          accessKey s @ ''/'' @ dateStamp ?l @ ''/'' @ region s @ ''/'' @ service s @ ''/aws4_request''"
    unfolding sw_signedQueryParams sw_queryParams mapIndex_def update_conv' by simp
  show ?thesis
    unfolding Let_def
    using a b d cr sw_amzDate [of L s now bucket key ct md e]
      sw_dateStamp [of L s now bucket key ct md e]
      sw_credentialScope [of L s now bucket key ct md e]
    by blast
qed

text \<open>
  C8. \<^verbatim>\<open>LoadConfig\<close> returns an error exactly when the access key, the secret key or the
  bucket name is missing or empty, or when the expiration minutes do not parse as an
  integer. The region is never a cause of failure: a missing or empty \<^verbatim>\<open>AWS_REGION\<close>
  is replaced by \<^verbatim>\<open>us-east-1\<close>.
\<close>

theorem LoadConfig_error_iff:
  "isl (LoadConfig env) =
     (Atoi (getEnv env ''PRESIGNED_URL_EXPIRATION_MINUTES'' ''3'') = None \<or>
      os_Getenv env ''AWS_ACCESS_KEY_ID'' = [] \<or>
      os_Getenv env ''AWS_SECRET_ACCESS_KEY'' = [] \<or>
      os_Getenv env ''S3_BUCKET_NAME'' = [])
   \<and> (case LoadConfig env of
        Inl err \<Rightarrow> True
      | Inr cfg \<Rightarrow>
          AWSRegion cfg =
            (if os_Getenv env ''AWS_REGION'' = [] then ''us-east-1'' else os_Getenv env ''AWS_REGION''))"
  by (cases "Atoi (getEnv env ''PRESIGNED_URL_EXPIRATION_MINUTES'' ''3'')")
    (simp_all add: LoadConfig_def Let_def getEnv_empty_default, simp_all add: getEnv_def Let_def)

text \<open>
  An environment with no \<^verbatim>\<open>AWS_REGION\<close> loads without error, with the default region.
\<close>

theorem LoadConfig_region_defaults:
  "exampleEnv ''AWS_REGION'' = None \<and>
   LoadConfig exampleEnv =
     Inr \<lparr>AWSRegion = ''us-east-1'', AWSAccessKeyID = ''AKIDEXAMPLE'',
          AWSSecretAccessKey = ''secret'', S3BucketName = ''test-bucket'', CompanyPrefix = [],
          PresignedURLExpirationMinutes = 3, Port = ''8080''\<rparr>"
  by (simp add: LoadConfig_def exampleEnv_def getEnv_def os_Getenv_def Let_def Atoi_def isDigit_def
      digitsValue_def)

text \<open>
  An environment with every credential, the region and the bucket set is still rejected when
  the expiration is not a number.
\<close>

lemma LoadConfig_rejects_bad_expiration:
  "LoadConfig (exampleEnv(''PRESIGNED_URL_EXPIRATION_MINUTES'' \<mapsto> ''3m'', ''AWS_REGION'' \<mapsto> ''eu-west-1''))
     = Inl InvalidExpirationMinutes"
  by (simp add: LoadConfig_def exampleEnv_def getEnv_def os_Getenv_def Let_def Atoi_def isDigit_def
      digitsValue_def)

text \<open>
  C9. With the bucket, key, expiration, configuration and clock fixed, the result of
  \<^verbatim>\<open>GeneratePresignedPutURL\<close> is the same for any two content types when the metadata
  entries are visited in the same order in both calls; and when no two metadata keys
  normalise to the same header name it is the same for any two content types and any two
  visiting orders of the same entries.
\<close>

theorem presigned_url_ignores_contentType:
  "GeneratePresignedPutURL L s c bucket key ct1 md e =
   GeneratePresignedPutURL L s c bucket key ct2 md e
   \<and> (set md' = set md \<longrightarrow>
      (\<forall>(k, v) \<in> set md. \<forall>(k', v') \<in> set md.
          normalizeKey_spec L k = normalizeKey_spec L k' \<longrightarrow> (k, v) = (k', v')) \<longrightarrow>
      GeneratePresignedPutURL L s c bucket key ct1 md e =
      GeneratePresignedPutURL L s c bucket key ct2 md' e)"
proof -
  have a: "GeneratePresignedPutURL L s c bucket key ct1 md e =
           GeneratePresignedPutURL L s c bucket key ct2 md e"
    unfolding GeneratePresignedPutURL_def
      signWith_contentType [of L s _ bucket key ct1 md e ct2]
    by (rule refl)
  have b: "set md' = set md \<longrightarrow>
      (\<forall>(k, v) \<in> set md. \<forall>(k', v') \<in> set md.
          normalizeKey_spec L k = normalizeKey_spec L k' \<longrightarrow> (k, v) = (k', v')) \<longrightarrow>
      GeneratePresignedPutURL L s c bucket key ct1 md e =
      GeneratePresignedPutURL L s c bucket key ct2 md' e"
  proof (intro impI)
    assume h1: "set md' = set md"
      and h2: "\<forall>(k, v) \<in> set md. \<forall>(k', v') \<in> set md.
          normalizeKey_spec L k = normalizeKey_spec L k' \<longrightarrow> (k, v) = (k', v')"
    show "GeneratePresignedPutURL L s c bucket key ct1 md e =
          GeneratePresignedPutURL L s c bucket key ct2 md' e"
      unfolding GeneratePresignedPutURL_def time_Now_UTC_def
      using presignedURL_order [OF h1 h2, of s _ bucket key ct1 e ct2] by simp
  qed
  from a b show ?thesis by blast
qed

text \<open>
  The theorem at the entries \<^verbatim>\<open>language\<close> and \<^verbatim>\<open>instructions\<close>, visited in the two possible
  orders, with the content types \<^verbatim>\<open>application/pdf\<close> and \<^verbatim>\<open>text/plain\<close>.
\<close>

theorem presigned_url_ignores_contentType_witness:
  "set [(''instructions'', ''ocr''), (''language'', ''es'')] = set [(''language'', ''es''), (''instructions'', ''ocr'')]
   \<and> GeneratePresignedPutURL exampleLib exampleSigner exampleClock ''test-bucket'' ''file.txt''
        ''application/pdf'' [(''language'', ''es''), (''instructions'', ''ocr'')] 180000000000 =
      GeneratePresignedPutURL exampleLib exampleSigner exampleClock ''test-bucket'' ''file.txt''
        ''text/plain'' [(''instructions'', ''ocr''), (''language'', ''es'')] 180000000000"
proof -
  have h1: "set [(''instructions'', ''ocr''), (''language'', ''es'')] =
            set [(''language'', ''es''), (''instructions'', ''ocr'')]"
    by auto
  have h2: "\<forall>(k, v) \<in> set [(''language'', ''es''), (''instructions'', ''ocr'')].
        \<forall>(k', v') \<in> set [(''language'', ''es''), (''instructions'', ''ocr'')].
          normalizeKey_spec exampleLib k = normalizeKey_spec exampleLib k' \<longrightarrow> (k, v) = (k', v')"
    by (simp add: string_eval)
  note th = presigned_url_ignores_contentType [where L = exampleLib and s = exampleSigner and c = exampleClock
      and bucket = "''test-bucket''" and key = "''file.txt''" and ?ct1.0 = "''application/pdf''"
      and ?ct2.0 = "''text/plain''" and md = "[(''language'', ''es''), (''instructions'', ''ocr'')]"
      and md' = "[(''instructions'', ''ocr''), (''language'', ''es'')]" and e = 180000000000]
  from th h1 h2 show ?thesis by blast
qed

text \<open>
  Without the proviso the statement fails. The keys \<^verbatim>\<open>a_b\<close> and \<^verbatim>\<open>a-b\<close> form one mapping
  whatever the order of its entries, yet the header \<^verbatim>\<open>x-amz-meta-a-b\<close> is signed with the
  value visited last, so two calls that visit the entries in different orders return
  different URLs (here with the identity as digest and concatenation as MAC, both
  injective; \<open>url_separates_headers\<close> covers every injective pair).
\<close>

theorem presigned_url_depends_on_visiting_order:
  "map_of [(''a_b'', ''1''), (''a-b'', ''2'')] = map_of [(''a-b'', ''2''), (''a_b'', ''1'')]
   \<and> GeneratePresignedPutURL exampleLib exampleSigner exampleClock ''test-bucket'' ''file.txt''
        ''application/pdf'' [(''a_b'', ''1''), (''a-b'', ''2'')] 180000000000 \<noteq>
      GeneratePresignedPutURL exampleLib exampleSigner exampleClock ''test-bucket'' ''file.txt''
        ''text/plain'' [(''a-b'', ''2''), (''a_b'', ''1'')] 180000000000"
proof -
  let ?now = "readings exampleClock (reads exampleClock)"
  let ?l = "signWith exampleLib exampleSigner ?now ''test-bucket'' ''file.txt''
        ''application/pdf'' [(''a_b'', ''1''), (''a-b'', ''2'')] 180000000000"
  let ?l' = "signWith exampleLib exampleSigner ?now ''test-bucket'' ''file.txt''
        ''text/plain'' [(''a-b'', ''2''), (''a_b'', ''1'')] 180000000000"
  have m: "map_of [(''a_b'', ''1''), (''a-b'', ''2'')] = map_of [(''a-b'', ''2''), (''a_b'', ''1'')]"
    by (auto simp add: fun_eq_iff)
  have injh: "inj (sha256Sum exampleLib)" by (simp add: exampleLib_def inj_def)
  have injm: "\<And>k. inj (hmacSum exampleLib k)" by (simp add: exampleLib_def inj_def)
  have n1: "normalizeValue_spec ''1'' = ''1''" and n2: "normalizeValue_spec ''2'' = ''2''"
    by (simp_all add: string_eval del: stringRunes.simps(2))
  have k1: "normalizeKey_spec exampleLib ''a_b'' = ''a-b''"
    and k2: "normalizeKey_spec exampleLib ''a-b'' = ''a-b''"
    by (simp_all add: string_eval)
  have hs: "headers ?l = [(''host'', host ?l), (''x-amz-meta-a-b'', ''2'')]"
    unfolding sw_headers metaHeaderKey_spec metaHeaderValue_spec
    by (simp add: k1 k2 n1 n2)
  have hs': "headers ?l' = [(''host'', host ?l'), (''x-amz-meta-a-b'', ''1'')]"
    unfolding sw_headers metaHeaderKey_spec metaHeaderValue_spec
    by (simp add: k1 k2 n1 n2)
  have h: "host ?l' = host ?l" unfolding sw_host by (rule refl)
  have sh: "signedHeaders ?l = signedHeaders ?l'"
    unfolding sw_signedHeaders sw_headerKeys hs hs' by simp
  have t1: "TrimSpace ''1'' = ''1''" using TrimSpace_normalizeValue [of "''1''"] unfolding n1 .
  have t2: "TrimSpace ''2'' = ''2''" using TrimSpace_normalizeValue [of "''2''"] unfolding n2 .
  have ch: "canonicalHeaders ?l \<noteq> canonicalHeaders ?l'"
    unfolding sw_canonicalHeaders sw_headerKeys hs hs' h Let_def fold_snoc_map
    by (simp add: mapIndex_def t1 t2)
  have "presignedURL ?l \<noteq> presignedURL ?l'"
    using url_separates_headers [OF injh injm sh] ch by blast
  then have "GeneratePresignedPutURL exampleLib exampleSigner exampleClock ''test-bucket'' ''file.txt''
        ''application/pdf'' [(''a_b'', ''1''), (''a-b'', ''2'')] 180000000000 \<noteq>
      GeneratePresignedPutURL exampleLib exampleSigner exampleClock ''test-bucket'' ''file.txt''
        ''text/plain'' [(''a-b'', ''2''), (''a_b'', ''1'')] 180000000000"
    unfolding GeneratePresignedPutURL_def time_Now_UTC_def by simp
  with m show ?thesis by blast
qed

text \<open>
  C10. When the listing succeeds, \<^verbatim>\<open>SearchObjectByFilename\<close> returns \<open>(True, key)\<close> for
  the first listed key that has the file name as a suffix, and \<open>(False, [])\<close> with no error
  when no listed key has.
\<close>

theorem search_matches_by_suffix:
  "client (bucketName s) (if companyPrefix s = [] then ''inputs/'' else companyPrefix s @ ''/'')
     = Inr contents \<Longrightarrow>
   SearchObjectByFilename client s filename =
     (case find (suffix filename) (List.map_filter (\<lambda>x. x) contents) of
        None \<Rightarrow> (False, [], None)
      | Some k \<Rightarrow> (True, k, None))"
  unfolding SearchObjectByFilename_def Let_def by (simp add: searchContents_find)

text \<open>
  Searching \<^verbatim>\<open>file.txt\<close> in a listing where \<^verbatim>\<open>myfile.txt\<close> comes first reports that other
  object; a name that ends no listed key is reported absent.
\<close>

theorem search_matches_by_suffix_witness:
  "exampleListing (bucketName exampleService)
      (if companyPrefix exampleService = [] then ''inputs/'' else companyPrefix exampleService @ ''/'')
     = Inr [None, Some ''inputs/2024-01-16/14-30-00/report.pdf'',
          Some ''inputs/2024-01-16/14-30-00/myfile.txt'',
          Some ''inputs/2024-01-16/14-31-00/file.txt'']
   \<and> SearchObjectByFilename exampleListing exampleService ''file.txt'' =
       (True, ''inputs/2024-01-16/14-30-00/myfile.txt'', None)
   \<and> SearchObjectByFilename exampleListing exampleService ''absent.txt'' = (False, [], None)"
proof -
  have h: "exampleListing (bucketName exampleService)
      (if companyPrefix exampleService = [] then ''inputs/'' else companyPrefix exampleService @ ''/'')
     = Inr [None, Some ''inputs/2024-01-16/14-30-00/report.pdf'',
          Some ''inputs/2024-01-16/14-30-00/myfile.txt'',
          Some ''inputs/2024-01-16/14-31-00/file.txt'']"
    by (simp add: exampleListing_def)
  show ?thesis
    using h
      search_matches_by_suffix [where client = exampleListing and s = exampleService and filename = "''file.txt''", OF h]
      search_matches_by_suffix [where client = exampleListing and s = exampleService and filename = "''absent.txt''", OF h]
    by (simp add: List.map_filter_simps suffix_iff_drop)
qed


end
